theory Spec2Isabelle
  imports Main "HOL-Library.Sublist"
begin

section \<open>JavaScript strings\<close>

text \<open>
  A JavaScript string is modelled as a \<^typ>\<open>string\<close>: one \<^typ>\<open>char\<close> per code unit, for
  documents whose code units are below 256. An index past the end reads
  \<open>undefined\<close>, which is \<^const>\<open>None\<close> here; \<open>indexOf\<close> returns \<open>-1\<close> for no occurrence,
  which is \<^const>\<open>None\<close> too.
\<close>

definition char_at :: "string \<Rightarrow> nat \<Rightarrow> char option" where
  "char_at s i = (if i < length s then Some (s ! i) else None)"

fun find_sub :: "string \<Rightarrow> string \<Rightarrow> nat option" where
  "find_sub needle [] = (if needle = [] then Some 0 else None)"
| "find_sub needle (c # cs) =
     (if prefix needle (c # cs) then Some 0 else map_option Suc (find_sub needle cs))"

definition indexOf :: "string \<Rightarrow> string \<Rightarrow> nat \<Rightarrow> nat option" where
  "indexOf s needle from =
     map_option (\<lambda>k. k + min from (length s)) (find_sub needle (drop from s))"

text \<open>What the program can throw: its own three \<open>Error\<close>s, the editor's error for a
  line number that is not a line of the document, \<open>String.prototype.repeat\<close>'s
  \<open>RangeError\<close> for a negative count, and a failure of a helper that is outside
  the provider.\<close>

datatype error =
    NotImplemented
  | BodyUnresolvable
  | HeadNull
  | IllegalLine
  | RangeError
  | HelperFailed

definition js_repeat :: "char \<Rightarrow> int \<Rightarrow> error + string" where
  "js_repeat c n = (if n < 0 then Inl RangeError else Inr (replicate (nat n) c))"

definition blank :: char where
  "blank = CHR '' ''"

definition newline :: char where
  "newline = CHR 0x0A"

section \<open>stripLuaComments\<close>

text \<open>\<open>while (src[j] === '=') { eq++; j++; }\<close>: the index of the first code unit at or
  after \<open>j\<close> that is not \<open>=\<close>; the count \<open>eq\<close> is the distance walked.\<close>

function skip_eq :: "string \<Rightarrow> nat \<Rightarrow> nat" where
  "skip_eq src j = (if char_at src j = Some (CHR ''='') then skip_eq src (Suc j) else j)"
  by pat_completeness auto
termination
  by (relation "measure (\<lambda>(src, j). length src - j)")
     (auto simp: char_at_def split: if_splits)

declare skip_eq.simps [simp del]

text \<open>\<open>while (k < src.length && src[k] !== '\n') k++;\<close>\<close>

function skip_line :: "string \<Rightarrow> nat \<Rightarrow> nat" where
  "skip_line src k =
     (if k < length src \<and> src ! k \<noteq> newline then skip_line src (Suc k) else k)"
  by pat_completeness auto
termination
  by (relation "measure (\<lambda>(src, k). length src - k)") auto

declare skip_line.simps [simp del]

text \<open>The test for a long bracket after \<open>--\<close> at \<open>i\<close>: \<open>src[i + 2] === '['\<close>, then the run
  of \<open>=\<close> from \<open>i + 3\<close>, then \<open>src[j] === '['\<close>. The result is that \<open>j\<close>; \<open>eq\<close> is
  \<open>j - (i + 3)\<close>. When the test fails the source falls through to the single-line
  branch, which is the \<^const>\<open>None\<close> here.\<close>

definition long_comment_open :: "string \<Rightarrow> nat \<Rightarrow> nat option" where
  "long_comment_open src i =
     (if char_at src (i + 2) = Some (CHR ''['') then
        (let j = skip_eq src (i + 3) in
         if char_at src j = Some (CHR ''['') then Some j else None)
      else None)"

definition end_token :: "nat \<Rightarrow> string" where
  "end_token eq = '']'' @ replicate eq (CHR ''='') @ '']''"

lemma skip_eq_ge: "j \<le> skip_eq src j"
proof (induction src j rule: skip_eq.induct)
  case (1 src j)
  then show ?case
    by (subst skip_eq.simps) (auto split: if_splits)
qed

lemma skip_line_ge: "k \<le> skip_line src k"
proof (induction src k rule: skip_line.induct)
  case (1 src k)
  then show ?case
    by (subst skip_line.simps) (auto split: if_splits)
qed

lemma find_sub_le: "find_sub needle s = Some k \<Longrightarrow> k \<le> length s"
  by (induction s arbitrary: k) (auto split: if_splits)

lemma indexOf_ge: "indexOf s needle from = Some e \<Longrightarrow> min from (length s) \<le> e"
  by (auto simp: indexOf_def)

lemma long_comment_open_gt: "long_comment_open src i = Some j \<Longrightarrow> i + 3 \<le> j \<and> j < length src"
  by (auto simp: long_comment_open_def Let_def char_at_def skip_eq_ge split: if_splits)

lemma skip_line_less:
  "i < length src \<Longrightarrow> length src - skip_line src (Suc (Suc i)) < length src - i"
  using skip_line_ge [of "Suc (Suc i)" src] by simp

function strip_loop :: "string \<Rightarrow> nat \<Rightarrow> string \<Rightarrow> error + string" where
  "strip_loop src i out =
     (if i < length src then
        (if char_at src i = Some (CHR ''-'') \<and> char_at src (i + 1) = Some (CHR ''-'') then
           (case long_comment_open src i of
              Some j \<Rightarrow>
                (case indexOf src (end_token (j - (i + 3))) (j + 1) of
                   Some endIdx \<Rightarrow>
                     (case js_repeat blank
                             (int (endIdx + length (end_token (j - (i + 3)))) - int i) of
                        Inl e \<Rightarrow> Inl e
                      | Inr spaces \<Rightarrow>
                          strip_loop src (endIdx + length (end_token (j - (i + 3))))
                            (out @ spaces))
                 | None \<Rightarrow>
                     (case js_repeat blank (int (length src) - int i) of
                        Inl e \<Rightarrow> Inl e
                      | Inr spaces \<Rightarrow> Inr (out @ spaces)))
            | None \<Rightarrow>
                (case js_repeat blank (int (skip_line src (i + 2)) - int i) of
                   Inl e \<Rightarrow> Inl e
                 | Inr spaces \<Rightarrow> strip_loop src (skip_line src (i + 2)) (out @ spaces)))
         else strip_loop src (i + 1) (out @ [src ! i]))
      else Inr out)"
  by pat_completeness auto
termination
  by (relation "measure (\<lambda>(src, i, out). length src - i)")
     (auto dest!: long_comment_open_gt indexOf_ge simp: end_token_def skip_line_less)

declare strip_loop.simps [simp del]

definition stripLuaComments :: "string \<Rightarrow> error + string" where
  "stripLuaComments src = strip_loop src 0 []"

subsection \<open>The stretches that are blanked\<close>

text \<open>
  What the stripper takes for a comment is described without reference to its loop: the
  text is read from the left, piece by piece, and \<open>blanked src out\<close> holds when \<open>out\<close> is
  \<open>src\<close> with these pieces blanked:
  \<^item> a character that does not start \<open>--\<close> is kept;
  \<^item> \<open>--\<close> that opens no long bracket starts a stretch that runs up to (not including)
    the next line break, or to the end of the text;
  \<^item> \<open>--[\<close>, \<open>n\<close> times \<open>=\<close>, \<open>[\<close> starts a stretch that runs through the first \<open>]\<close>,
    \<open>n\<close> times \<open>=\<close>, \<open>]\<close> after it, line breaks included: the closing bracket has the
    level of the opening one;
  \<^item> with no closing bracket of that level, the stretch runs to the end of the text.

  Every \<open>--\<close> that is met outside a stretch starts one, wherever it stands: the relation
  knows nothing of string literals. The two brackets are written out here on their own;
  the closing bracket of the loop, \<^const>\<open>end_token\<close>, is not used.
\<close>

definition open_token :: "nat \<Rightarrow> string" where
  "open_token n = ''--['' @ replicate n (CHR ''='') @ ''[''"

definition close_bracket :: "nat \<Rightarrow> string" where
  "close_bracket n = '']'' @ replicate n (CHR ''='') @ '']''"

inductive blanked :: "string \<Rightarrow> string \<Rightarrow> bool" where
  blanked_end: "blanked [] []"
| blanked_code:
    "\<not> prefix ''--'' (c # cs) \<Longrightarrow> blanked cs out \<Longrightarrow> blanked (c # cs) (c # out)"
| blanked_line:
    "newline \<notin> set body \<Longrightarrow> (\<forall>n. \<not> prefix (open_token n) (''--'' @ body)) \<Longrightarrow>
     rest = [] \<or> hd rest = newline \<Longrightarrow> blanked rest out \<Longrightarrow>
     blanked (''--'' @ body @ rest) (replicate (2 + length body) blank @ out)"
| blanked_block:
    "(\<forall>k<length body. \<not> prefix (close_bracket n) (drop k (body @ close_bracket n @ rest))) \<Longrightarrow>
     blanked rest out \<Longrightarrow>
     blanked (open_token n @ body @ close_bracket n @ rest)
       (replicate (length (open_token n) + length body + length (close_bracket n)) blank @ out)"
| blanked_open:
    "(\<forall>k. \<not> prefix (close_bracket n) (drop k body)) \<Longrightarrow>
     blanked (open_token n @ body) (replicate (length (open_token n) + length body) blank)"

subsection \<open>The stripper blanks these stretches\<close>

lemma end_token_close_bracket: "end_token n = close_bracket n"
  by (simp add: end_token_def close_bracket_def)

lemma blanked_block_end_token:
  "(\<forall>k<length body. \<not> prefix (end_token n) (drop k (body @ end_token n @ rest))) \<Longrightarrow>
   blanked rest out \<Longrightarrow>
   blanked (open_token n @ body @ end_token n @ rest)
     (replicate (length (open_token n) + length body + length (end_token n)) blank @ out)"
  unfolding end_token_close_bracket by (rule blanked_block)

lemma blanked_open_end_token:
  "(\<forall>k. \<not> prefix (end_token n) (drop k body)) \<Longrightarrow>
   blanked (open_token n @ body) (replicate (length (open_token n) + length body) blank)"
  unfolding end_token_close_bracket by (rule blanked_open)


lemma skip_eq_run:
  "drop j src = replicate (skip_eq src j - j) (CHR ''='') @ drop (skip_eq src j) src"
proof (induction src j rule: skip_eq.induct)
  case (1 src j)
  show ?case
  proof (cases "char_at src j = Some (CHR ''='')")
    case True
    then have j: "j < length src" "src ! j = CHR ''=''"
      by (auto simp: char_at_def split: if_splits)
    have s: "skip_eq src j = skip_eq src (Suc j)"
      using True by (subst skip_eq.simps) simp
    have ge: "Suc j \<le> skip_eq src (Suc j)" by (rule skip_eq_ge)
    then have "skip_eq src (Suc j) - j = Suc (skip_eq src (Suc j) - Suc j)" by simp
    moreover have "drop j src = CHR ''='' # drop (Suc j) src"
      using j by (metis Cons_nth_drop_Suc)
    ultimately show ?thesis
      using 1 [OF True] s by simp
  next
    case False
    then have "skip_eq src j = j" by (subst skip_eq.simps) simp
    then show ?thesis by simp
  qed
qed

lemma skip_eq_stop: "char_at src (skip_eq src j) \<noteq> Some (CHR ''='')"
proof (induction src j rule: skip_eq.induct)
  case (1 src j)
  then show ?case by (subst skip_eq.simps) (auto split: if_splits)
qed

lemma drop_char_at: "char_at src i = Some c \<Longrightarrow> drop i src = c # drop (Suc i) src"
  by (auto simp: char_at_def Cons_nth_drop_Suc split: if_splits)

lemma long_comment_open_Some:
  assumes "char_at src i = Some (CHR ''-'')" "char_at src (i + 1) = Some (CHR ''-'')"
    and "long_comment_open src i = Some j"
  shows "drop i src = open_token (j - (i + 3)) @ drop (j + 1) src"
proof -
  from assms(3) have b: "char_at src (i + 2) = Some (CHR ''['')"
    and j: "j = skip_eq src (i + 3)" and c: "char_at src j = Some (CHR ''['')"
    by (auto simp: long_comment_open_def Let_def split: if_splits)
  have "drop i src = CHR ''-'' # CHR ''-'' # CHR ''['' # drop (i + 3) src"
    using assms(1,2) b by (simp add: drop_char_at numeral_3_eq_3 numeral_2_eq_2)
  also have "drop (i + 3) src = replicate (j - (i + 3)) (CHR ''='') @ drop j src"
    unfolding j by (rule skip_eq_run)
  also have "drop j src = CHR ''['' # drop (j + 1) src"
    using c by (simp add: drop_char_at)
  finally show ?thesis by (simp add: open_token_def)
qed

lemma prefix_replicate_eq:
  assumes "prefix (replicate n x @ [y]) (replicate m x @ zs)" "x \<noteq> y"
    and "zs = [] \<or> hd zs \<noteq> x"
  shows "n = m \<and> zs \<noteq> [] \<and> hd zs = y"
  using assms
proof (induction n arbitrary: m)
  case 0
  then show ?case by (cases m; cases zs) auto
next
  case (Suc n)
  show ?case
  proof (cases m)
    case 0
    with Suc.prems show ?thesis by (cases zs) auto
  next
    case (Suc m')
    with Suc.prems Suc.IH [of m'] show ?thesis by auto
  qed
qed

lemma long_comment_open_None:
  assumes "char_at src i = Some (CHR ''-'')" "char_at src (i + 1) = Some (CHR ''-'')"
    and "long_comment_open src i = None"
  shows "\<not> prefix (open_token n) (drop i src)"
proof
  assume p: "prefix (open_token n) (drop i src)"
  have d: "drop i src = CHR ''-'' # CHR ''-'' # drop (i + 2) src"
    using assms(1,2) by (simp add: drop_char_at)
  from p d have p2: "prefix (CHR ''['' # replicate n (CHR ''='') @ ''['') (drop (i + 2) src)"
    by (simp add: open_token_def)
  then have "drop (i + 2) src \<noteq> []" by auto
  then have lt: "i + 2 < length src" by simp
  from p2 have b: "char_at src (i + 2) = Some (CHR ''['')"
    using lt by (auto simp: char_at_def prefix_def dest: arg_cong [where f = hd] simp: hd_drop_conv_nth)
  then have "drop (i + 2) src = CHR ''['' # drop (i + 3) src"
    by (simp add: drop_char_at numeral_3_eq_3 numeral_2_eq_2)
  with p2 have p3: "prefix (replicate n (CHR ''='') @ ''['') (drop (i + 3) src)"
    by simp
  let ?j = "skip_eq src (i + 3)"
  have run: "drop (i + 3) src = replicate (?j - (i + 3)) (CHR ''='') @ drop ?j src"
    by (rule skip_eq_run)
  have stop: "drop ?j src = [] \<or> hd (drop ?j src) \<noteq> CHR ''=''"
    using skip_eq_stop [of src "i + 3"]
    by (cases "?j < length src") (auto simp: char_at_def hd_drop_conv_nth)
  from p3 run have "prefix (replicate n (CHR ''='') @ [CHR ''['']) (replicate (?j - (i + 3)) (CHR ''='') @ drop ?j src)"
    by simp
  from prefix_replicate_eq [OF this _ stop]
  have "drop ?j src \<noteq> []" "hd (drop ?j src) = CHR ''[''" by auto
  then have "char_at src ?j = Some (CHR ''['')"
    by (auto simp: char_at_def hd_drop_conv_nth)
  with b assms(3) show False
    by (simp add: long_comment_open_def Let_def)
qed

lemma find_sub_Some:
  "find_sub needle s = Some k \<Longrightarrow>
     prefix needle (drop k s) \<and> (\<forall>k'<k. \<not> prefix needle (drop k' s))"
proof (induction s arbitrary: k)
  case Nil
  then show ?case by (auto split: if_splits)
next
  case (Cons c cs)
  show ?case
  proof (cases "prefix needle (c # cs)")
    case True
    with Cons.prems show ?thesis by simp
  next
    case False
    with Cons.prems obtain k0 where k0: "find_sub needle cs = Some k0" "k = Suc k0"
      by auto
    from Cons.IH [OF k0(1)] False show ?thesis
      by (auto simp: k0(2) less_Suc_eq_0_disj)
  qed
qed

lemma find_sub_None:
  "find_sub needle s = None \<Longrightarrow> \<not> prefix needle (drop k s)"
proof (induction s arbitrary: k)
  case Nil
  then show ?case by (auto split: if_splits)
next
  case (Cons c cs)
  then show ?case by (cases k) (auto split: if_splits)
qed

lemma skip_line_run:
  "k \<le> length src \<Longrightarrow>
   newline \<notin> set (take (skip_line src k - k) (drop k src)) \<and>
   (drop (skip_line src k) src = [] \<or> hd (drop (skip_line src k) src) = newline)"
proof (induction src k rule: skip_line.induct)
  case (1 src k)
  show ?case
  proof (cases "k < length src \<and> src ! k \<noteq> newline")
    case True
    then have s: "skip_line src k = skip_line src (Suc k)"
      by (subst skip_line.simps) simp
    have ge: "Suc k \<le> skip_line src (Suc k)" by (rule skip_line_ge)
    then have e: "skip_line src (Suc k) - k = Suc (skip_line src (Suc k) - Suc k)" by simp
    have d: "drop k src = src ! k # drop (Suc k) src"
      using True by (simp add: Cons_nth_drop_Suc)
    from 1(1) [OF True] True show ?thesis
      by (auto simp: s e d)
  next
    case False
    then have s: "skip_line src k = k" by (subst skip_line.simps) auto
    show ?thesis
    proof (cases "k < length src")
      case True
      with False show ?thesis by (simp add: s hd_drop_conv_nth)
    next
      case False
      then show ?thesis by (simp add: s)
    qed
  qed
qed

lemma skip_line_le: "k \<le> length src \<Longrightarrow> skip_line src k \<le> length src"
proof (induction src k rule: skip_line.induct)
  case (1 src k)
  then show ?case by (subst skip_line.simps) auto
qed


lemma js_repeat_diff: "i \<le> a \<Longrightarrow> js_repeat c (int a - int i) = Inr (replicate (a - i) c)"
  by (simp add: js_repeat_def nat_diff_distrib')

lemma strip_loop_blanked:
  "i \<le> length src \<Longrightarrow>
   \<exists>r. strip_loop src i out = Inr (out @ r) \<and> blanked (drop i src) r \<and>
       length r = length src - i"
proof (induction src i out rule: strip_loop.induct)
  case (1 src i out)
  let ?dash = "char_at src i = Some (CHR ''-'') \<and> char_at src (i + 1) = Some (CHR ''-'')"
  show ?case
  proof (cases "i < length src")
    case False
    with 1(4) have "drop i src = []" by simp
    moreover have "strip_loop src i out = Inr out"
      using False by (subst strip_loop.simps) simp
    ultimately show ?thesis
      using False by (auto intro: blanked_end)
  next
    case lt: True
    show ?thesis
    proof (cases ?dash)
      case False
      have s: "strip_loop src i out = strip_loop src (i + 1) (out @ [src ! i])"
        using lt False by (subst strip_loop.simps) auto
      from 1(3) [OF lt False] lt obtain r where
        r: "strip_loop src (i + 1) (out @ [src ! i]) = Inr ((out @ [src ! i]) @ r)"
           "blanked (drop (i + 1) src) r" "length r = length src - (i + 1)"
        by auto
      have d: "drop i src = src ! i # drop (i + 1) src"
        using lt by (simp add: Cons_nth_drop_Suc)
      have "\<not> prefix ''--'' (src ! i # drop (i + 1) src)"
      proof
        assume p: "prefix ''--'' (src ! i # drop (i + 1) src)"
        then have a: "src ! i = CHR ''-''" and p2: "prefix ''-'' (drop (i + 1) src)"
          by auto
        from p2 have "drop (i + 1) src \<noteq> []" by auto
        then have lt2: "i + 1 < length src" by simp
        from p2 have "hd (drop (i + 1) src) = CHR ''-''"
          by (auto simp: prefix_def)
        then have "src ! (i + 1) = CHR ''-''"
          using lt2 by (simp add: hd_drop_conv_nth)
        with a lt lt2 False show False by (simp add: char_at_def)
      qed
      then have "blanked (drop i src) (src ! i # r)"
        unfolding d using r(2) by (rule blanked_code)
      then show ?thesis
        using s r(1,3) lt by auto
    next
      case dash: True
      then have dd: "drop i src = CHR ''-'' # CHR ''-'' # drop (i + 2) src"
        by (simp add: drop_char_at)
      from dash have lt2: "i + 2 \<le> length src"
        by (auto simp: char_at_def split: if_splits)
      show ?thesis
      proof (cases "long_comment_open src i")
        case None
        let ?k = "skip_line src (i + 2)"
        let ?body = "take (?k - (i + 2)) (drop (i + 2) src)"
        have ge: "i + 2 \<le> ?k" by (rule skip_line_ge)
        have le: "?k \<le> length src" using lt2 by (rule skip_line_le)
        have rep: "js_repeat blank (int ?k - int i) = Inr (replicate (?k - i) blank)"
          using ge by (intro js_repeat_diff) simp
        have s: "strip_loop src i out = strip_loop src ?k (out @ replicate (?k - i) blank)"
          using lt dash None rep by (subst strip_loop.simps) simp
        from 1(1) [OF lt dash None rep le] obtain r where
          r: "strip_loop src ?k (out @ replicate (?k - i) blank) =
                Inr ((out @ replicate (?k - i) blank) @ r)"
             "blanked (drop ?k src) r" "length r = length src - ?k"
          by auto
        have split: "drop (i + 2) src = ?body @ drop ?k src"
          using ge by (metis append_take_drop_id drop_drop le_add_diff_inverse2)
        have len: "length ?body = ?k - (i + 2)"
          using le by simp
        from skip_line_run [OF lt2]
        have nl: "newline \<notin> set ?body"
          and stop: "drop ?k src = [] \<or> hd (drop ?k src) = newline"
          by auto
        have nopen: "\<forall>n. \<not> prefix (open_token n) (''--'' @ ?body)"
        proof (intro allI notI)
          fix n
          assume "prefix (open_token n) (''--'' @ ?body)"
          moreover have "prefix (''--'' @ ?body) (drop i src)"
            unfolding dd by (subst split) simp
          ultimately have "prefix (open_token n) (drop i src)"
            by (rule prefix_order.trans)
          with long_comment_open_None [OF _ _ None, of n] dash show False
            by simp
        qed
        have A: "blanked (''--'' @ ?body @ drop ?k src) (replicate (2 + length ?body) blank @ r)"
          using nl nopen stop r(2) by (rule blanked_line)
        have B: "''--'' @ ?body @ drop ?k src = drop i src"
          unfolding dd by (subst split) simp
        have C: "2 + length ?body = ?k - i"
          using len ge by simp
        from A have "blanked (drop i src) (replicate (?k - i) blank @ r)"
          by (simp only: B C)
        then show ?thesis
          using s r(1,3) ge le by auto
      next
        case (Some j)
        let ?n = "j - (i + 3)"
        let ?tok = "end_token ?n"
        let ?D = "drop (j + 1) src"
        from long_comment_open_gt [OF Some] have j: "i + 3 \<le> j" "j < length src"
          by auto
        have dopen: "drop i src = open_token ?n @ ?D"
          using dash Some by (intro long_comment_open_Some) auto
        have lopen: "length (open_token ?n) = j + 1 - i"
          using j by (simp add: open_token_def)
        show ?thesis
        proof (cases "indexOf src ?tok (j + 1)")
          case None
          have rep: "js_repeat blank (int (length src) - int i) =
              Inr (replicate (length src - i) blank)"
            using lt by (intro js_repeat_diff) simp
          have s: "strip_loop src i out = Inr (out @ replicate (length src - i) blank)"
            using lt dash Some None rep by (subst strip_loop.simps) simp
          from None have "find_sub ?tok ?D = None"
            by (simp add: indexOf_def)
          then have "\<forall>k. \<not> prefix ?tok (drop k ?D)"
            using find_sub_None by blast
          then have A: "blanked (open_token ?n @ ?D)
              (replicate (length (open_token ?n) + length ?D) blank)"
            by (rule blanked_open_end_token)
          have C: "length (open_token ?n) + length ?D = length src - i"
            using j lopen by simp
          from A have "blanked (drop i src) (replicate (length src - i) blank)"
            by (simp only: dopen [symmetric] C)
          then show ?thesis
            using s by auto
        next
          case (Some e)
          then obtain k0 where k0: "find_sub ?tok ?D = Some k0" and e: "e = k0 + (j + 1)"
            using j by (auto simp: indexOf_def)
          have rep: "js_repeat blank (int (e + length ?tok) - int i) =
              Inr (replicate (e + length ?tok - i) blank)"
            using e j by (intro js_repeat_diff) simp
          have s: "strip_loop src i out =
              strip_loop src (e + length ?tok) (out @ replicate (e + length ?tok - i) blank)"
            using lt dash \<open>long_comment_open src i = Some j\<close> Some rep
            by (subst strip_loop.simps) simp
          from find_sub_Some [OF k0]
          have pre: "prefix ?tok (drop k0 ?D)"
            and first: "\<forall>k'<k0. \<not> prefix ?tok (drop k' ?D)"
            by auto
          have k0le: "k0 \<le> length ?D" using k0 by (rule find_sub_le)
          let ?body = "take k0 ?D"
          let ?rest = "drop (e + length ?tok) src"
          from pre have "drop k0 ?D = ?tok @ drop (length ?tok) (drop k0 ?D)"
            by (metis append_eq_conv_conj prefix_def)
          moreover have "drop (length ?tok) (drop k0 ?D) = ?rest"
            by (simp add: e add.commute add.left_commute)
          ultimately have dk: "drop k0 ?D = ?tok @ ?rest" by simp
          have D: "?D = ?body @ ?tok @ ?rest"
            using dk by (metis append_take_drop_id)
          have lbody: "length ?body = k0" using k0le by simp
          have le: "e + length ?tok \<le> length src"
          proof -
            have "length (drop k0 ?D) = length ?tok + length ?rest"
              by (subst dk) simp
            then show ?thesis using k0le e j by simp
          qed
          from 1(2) [OF lt dash \<open>long_comment_open src i = Some j\<close> Some rep le] obtain r where
            r: "strip_loop src (e + length ?tok) (out @ replicate (e + length ?tok - i) blank) =
                  Inr ((out @ replicate (e + length ?tok - i) blank) @ r)"
               "blanked ?rest r" "length r = length src - (e + length ?tok)"
            by auto
          have "\<forall>k<length ?body. \<not> prefix ?tok (drop k (?body @ ?tok @ ?rest))"
            using first lbody D by simp
          then have A: "blanked (open_token ?n @ ?body @ ?tok @ ?rest)
              (replicate (length (open_token ?n) + length ?body + length ?tok) blank @ r)"
            using r(2) by (rule blanked_block_end_token)
          have B: "open_token ?n @ ?body @ ?tok @ ?rest = drop i src"
            using dopen D by simp
          have C: "length (open_token ?n) + length ?body + length ?tok = e + length ?tok - i"
            using lopen lbody e j by simp
          from A have "blanked (drop i src) (replicate (e + length ?tok - i) blank @ r)"
            by (simp only: B C)
          then show ?thesis
            using s r(1,3) le e j by auto
        qed
      qed
    qed
  qed
qed

section \<open>Regular expressions of the provider\<close>

definition is_word_char :: "char \<Rightarrow> bool" where
  "is_word_char c \<longleftrightarrow>
     c \<in> set ''ABCDEFGHIJKLMNOPQRSTUVWXYZabcdefghijklmnopqrstuvwxyz0123456789_''"

definition is_space :: "char \<Rightarrow> bool" where
  "is_space c \<longleftrightarrow>
     c \<in> set [CHR '' '', CHR 0x09, CHR 0x0A, CHR 0x0B, CHR 0x0C, CHR 0x0D, CHR 0xA0]"

definition to_lower :: "char \<Rightarrow> char" where
  "to_lower c =
     (if c \<in> set ''ABCDEFGHIJKLMNOPQRSTUVWXYZ'' then char_of (of_char c + (32::nat)) else c)"

text \<open>\<open>toLowerCase\<close> and the \<open>i\<close> flag of the regular expressions, on the letters A to Z:
  the provider looks for \<open>then\<close>, \<open>do\<close> and its keywords only, which no other code unit
  below 256 is lowered to.\<close>

definition toLowerCase :: "string \<Rightarrow> string" where
  "toLowerCase s = map to_lower s"

text \<open>\<open>/\bkw\b/i\<close> matches at index \<open>i\<close>: the keyword stands there in any case, no word
  character stands before it, and none after it.\<close>

definition kw_match_at :: "string \<Rightarrow> string \<Rightarrow> nat \<Rightarrow> bool" where
  "kw_match_at kw s i \<longleftrightarrow>
     i + length kw \<le> length s \<and>
     toLowerCase (take (length kw) (drop i s)) = kw \<and>
     (i = 0 \<or> \<not> is_word_char (s ! (i - 1))) \<and>
     (i + length kw = length s \<or> \<not> is_word_char (s ! (i + length kw)))"

text \<open>\<open>regex.exec(s)\<close> of a global regular expression \<open>/\bkw\b/gi\<close> whose \<open>lastIndex\<close> is
  \<open>li\<close>: the index of the first match at or after \<open>li\<close> and the new \<open>lastIndex\<close>, the
  end of that match; with no match, \<open>null\<close> and \<open>lastIndex\<close> 0.\<close>

definition regex_exec :: "string \<Rightarrow> string \<Rightarrow> nat \<Rightarrow> nat option \<times> nat" where
  "regex_exec kw s li =
     (case find (kw_match_at kw s) [li..<Suc (length s)] of
        Some i \<Rightarrow> (Some i, i + length kw)
      | None \<Rightarrow> (None, 0))"

text \<open>\<open>s.match(/^\s*/)[0]\<close>: the white space a line starts with.\<close>

definition leading_space :: "string \<Rightarrow> string" where
  "leading_space s = takeWhile is_space s"

text \<open>\<open>s.trim() === ''\<close>\<close>

definition trims_to_empty :: "string \<Rightarrow> bool" where
  "trims_to_empty s = list_all is_space s"

text \<open>\<open>/\belse\s*$/i.test(s)\<close>: without its trailing white space, \<open>s\<close> ends with the word
  \<open>else\<close>.\<close>

definition else_before :: "string \<Rightarrow> bool" where
  "else_before s =
     (let t = rev (dropWhile is_space (rev s))
      in 4 \<le> length t \<and> kw_match_at ''else'' t (length t - 4))"

text \<open>\<open>/\[=*\[/\<close> matched at index \<open>i\<close> exactly (the \<open>^\<close> of \<open>s.substring(i).match(/^\[=*\[/)\<close>):
  the number of \<open>=\<close> between the two brackets.\<close>

definition long_bracket_open :: "string \<Rightarrow> nat \<Rightarrow> nat option" where
  "long_bracket_open s i =
     (if char_at s i = Some (CHR ''['') \<and> char_at s (skip_eq s (i + 1)) = Some (CHR ''['')
      then Some (skip_eq s (i + 1) - (i + 1)) else None)"

text \<open>\<open>s.match(/--\[(=*)\[/)\<close>: the first index where \<open>--\<close> and a long bracket stand, with
  the number of \<open>=\<close> (the group).\<close>

definition block_start_at :: "string \<Rightarrow> nat \<Rightarrow> bool" where
  "block_start_at s i \<longleftrightarrow>
     char_at s i = Some (CHR ''-'') \<and> char_at s (i + 1) = Some (CHR ''-'') \<and>
     long_bracket_open s (i + 2) \<noteq> None"

definition block_start_match :: "string \<Rightarrow> (nat \<times> nat) option" where
  "block_start_match s =
     (case find (block_start_at s) [0..<length s] of
        None \<Rightarrow> None
      | Some i \<Rightarrow>
          (case long_bracket_open s (i + 2) of
             None \<Rightarrow> None
           | Some eq \<Rightarrow> Some (i, eq)))"

section \<open>The document\<close>

text \<open>
  The editor's document is outside the provider. It is modelled as its text, with lines
  ended by a line feed: \<open>lineAt(n).text\<close> is the \<open>n\<close>th piece between line feeds and
  throws when \<open>n\<close> is not a line; \<open>offsetAt\<close> and \<open>positionAt\<close> convert between an
  offset in the text and a (line, character) pair, moving a position or an offset
  that is outside the text to the nearest one inside.
\<close>

type_synonym pos = "nat \<times> nat"

fun split_lines :: "string \<Rightarrow> string list" where
  "split_lines [] = [[]]"
| "split_lines (c # cs) =
     (if c = newline then [] # split_lines cs
      else (case split_lines cs of
              l # ls \<Rightarrow> (c # l) # ls
            | [] \<Rightarrow> [[c]]))"

definition lineAt :: "string list \<Rightarrow> nat \<Rightarrow> error + string" where
  "lineAt lines ln = (if ln < length lines then Inr (lines ! ln) else Inl IllegalLine)"

fun position_in :: "string list \<Rightarrow> nat \<Rightarrow> nat \<Rightarrow> pos" where
  "position_in [] ln off = (ln, 0)"
| "position_in [l] ln off = (ln, min off (length l))"
| "position_in (l # l' # ls) ln off =
     (if off \<le> length l then (ln, off)
      else position_in (l' # ls) (Suc ln) (off - length l - 1))"

definition positionAt :: "string list \<Rightarrow> nat \<Rightarrow> pos" where
  "positionAt lines off = position_in lines 0 off"

definition offsetAt :: "string list \<Rightarrow> pos \<Rightarrow> nat" where
  "offsetAt lines p =
     (let ln = min (fst p) (length lines - 1);
          ch = (if fst p < length lines then min (snd p) (length (lines ! ln))
                else length (lines ! ln))
      in sum_list (map (\<lambda>l. length l + 1) (take ln lines)) + ch)"

text \<open>A range is an ordered pair of positions: the constructor swaps two positions given
  in the wrong order.\<close>

type_synonym range = "pos \<times> pos"

definition pos_before :: "pos \<Rightarrow> pos \<Rightarrow> bool" where
  "pos_before a b \<longleftrightarrow> fst a < fst b \<or> (fst a = fst b \<and> snd a < snd b)"

text \<open>Modelled from the spec: \<open>utils.range_new\<close> is not among the source files. The
  specification's range is an ordered pair of positions (start, end) with start not
  after end, which is what the editor's \<open>Range\<close> constructor builds from two positions.\<close>

definition range_new :: "nat \<Rightarrow> nat \<Rightarrow> nat \<Rightarrow> nat \<Rightarrow> range" where
  "range_new l1 c1 l2 c2 =
     (if pos_before (l1, c1) (l2, c2) then ((l1, c1), (l2, c2)) else ((l2, c2), (l1, c1)))"

definition range_start :: "range \<Rightarrow> pos" where
  "range_start r = fst r"

definition range_end :: "range \<Rightarrow> pos" where
  "range_end r = snd r"

record document_symbol =
  sym_range :: range
  sym_selectionRange :: range

text \<open>The first occurrence of \<open>needle\<close> at or after character \<open>start\<close> of line \<open>ln\<close>,
  searched line by line; later lines are searched from their first character.\<close>

function search_lines :: "string list \<Rightarrow> string \<Rightarrow> nat \<Rightarrow> nat \<Rightarrow> pos option" where
  "search_lines lines needle ln start =
     (if ln < length lines then
        (case indexOf (lines ! ln) needle start of
           Some idx \<Rightarrow> Some (ln, idx)
         | None \<Rightarrow> search_lines lines needle (Suc ln) 0)
      else None)"
  by pat_completeness auto
termination
  by (relation "measure (\<lambda>(lines, needle, ln, start). length lines - ln)") auto

declare search_lines.simps [simp del]

text \<open>Modelled from the spec: \<open>utils.findInDocument\<close> is not among the source files. It is
  called with a text, the document and a position, and its result is used as the
  position (line, character) where that text starts, or as nothing: the first
  occurrence at or after the position.\<close>

definition findInDocument :: "string \<Rightarrow> string list \<Rightarrow> pos \<Rightarrow> pos option" where
  "findInDocument needle lines p = search_lines lines needle (fst p) (snd p)"

section \<open>The heuristic route: the end of the body\<close>

definition token_keywords :: "string list" where
  "token_keywords = [''function'', ''do'', ''repeat'', ''if'', ''for'', ''while'', ''end'', ''until'']"

text \<open>The \<open>lastIndex\<close> of the eight regular expressions, in the order of
  \<^const>\<open>token_keywords\<close>. Before each line the source resets five of them: not those of \<open>if\<close>,
  \<open>for\<close> and \<open>while\<close>.\<close>

definition reset_lastIndex :: "nat list \<Rightarrow> nat list" where
  "reset_lastIndex lis = [0, 0, 0, lis ! 3, lis ! 4, lis ! 5, 0, 0]"

text \<open>One round of \<open>while (true)\<close>: every regular expression is executed once, which moves
  every \<open>lastIndex\<close>; then only the match that starts first is acted on. \<open>Inl\<close> is the
  \<open>return\<close> of the position found; \<open>Inr\<close> is the \<open>break\<close>, with the depth and the
  \<open>lastIndex\<close>es it leaves.\<close>

definition exec_all :: "string \<Rightarrow> nat list \<Rightarrow> (nat option \<times> nat) list" where
  "exec_all sub lis = map (\<lambda>(kw, li). regex_exec kw sub li) (zip token_keywords lis)"

text \<open>The matches of a round with their keywords, the earliest first
  (\<open>candidates.filter(...)\<close>, then \<open>candidates.sort(...)\<close>, which keeps the order of
  equal indices).\<close>

definition candidates_of :: "(nat option \<times> nat) list \<Rightarrow> (nat \<times> string) list" where
  "candidates_of results =
     sort_key fst
       (List.map_filter (\<lambda>(r, kw). map_option (\<lambda>idx. (idx, kw)) (fst r))
          (zip results token_keywords))"

partial_function (option) scan_tokens ::
  "string \<Rightarrow> nat \<Rightarrow> nat \<Rightarrow> string \<Rightarrow> string \<Rightarrow> nat list \<Rightarrow> nat \<Rightarrow>
     (pos + nat \<times> nat list) option" where
  "scan_tokens lineText searchFrom ln startIndent sub lis depth =
     (case candidates_of (exec_all sub lis) of
        [] \<Rightarrow> Some (Inr (depth, map snd (exec_all sub lis)))
      | pick # _ \<Rightarrow>
          if snd pick \<in> set [''function'', ''do'', ''repeat'', ''for'', ''while''] then
            scan_tokens lineText searchFrom ln startIndent sub (map snd (exec_all sub lis))
              (depth + 1)
          else if snd pick = ''if'' then
            scan_tokens lineText searchFrom ln startIndent sub (map snd (exec_all sub lis))
              (if else_before (take (searchFrom + fst pick) lineText) then depth
               else depth + 1)
          else if depth = 0 then
            (if leading_space lineText = startIndent
             then Some (Inl (ln, searchFrom + fst pick))
             else scan_tokens lineText searchFrom ln startIndent sub
                    (map snd (exec_all sub lis)) depth)
          else scan_tokens lineText searchFrom ln startIndent sub
                 (map snd (exec_all sub lis)) (depth - 1))"

declare scan_tokens.simps [code]

text \<open>What is left of a line for the keyword search: the rest after the end of a block
  comment that was open (nothing when it does not end on this line), without the first
  block comment that starts on the line, and without a single-line comment. The second
  component is the closing bracket awaited after the line.\<close>

definition after_block_comment :: "string \<Rightarrow> string option \<Rightarrow> string option" where
  "after_block_comment textLine blockClosePattern =
     (case blockClosePattern of
        None \<Rightarrow> Some textLine
      | Some pat \<Rightarrow>
          (case indexOf textLine pat 0 of
             Some closeIdx \<Rightarrow> Some (drop (closeIdx + length pat) textLine)
           | None \<Rightarrow> None))"

definition remove_block_comment :: "string \<Rightarrow> string \<times> string option" where
  "remove_block_comment textLine =
     (case block_start_match textLine of
        None \<Rightarrow> (textLine, None)
      | Some (at, eq) \<Rightarrow>
          (let matched = take (eq + 4) (drop at textLine);
               close = end_token eq;
               startIdx = (case indexOf textLine matched 0 of Some k \<Rightarrow> k | None \<Rightarrow> at)
           in case indexOf textLine close (startIdx + length matched) of
                Some closeIdx \<Rightarrow>
                  (take startIdx textLine @ drop (closeIdx + length close) textLine, None)
              | None \<Rightarrow> (take startIdx textLine, Some close)))"

definition remove_line_comment :: "string \<Rightarrow> string" where
  "remove_line_comment textLine =
     (case indexOf textLine ''--'' 0 of Some commentIdx \<Rightarrow> take commentIdx textLine
      | None \<Rightarrow> textLine)"

function scan_lines ::
  "string list \<Rightarrow> string \<Rightarrow> pos \<Rightarrow> nat \<Rightarrow> nat \<Rightarrow> string option \<Rightarrow> nat list \<Rightarrow>
     pos option option" where
  "scan_lines lines startIndent body_start ln depth blockClosePattern lis =
     (if ln < length lines then
        (case after_block_comment (lines ! ln) blockClosePattern of
           None \<Rightarrow> scan_lines lines startIndent body_start (Suc ln) depth blockClosePattern lis
         | Some textLine \<Rightarrow>
             (let searchFrom = (if ln = fst body_start then snd body_start else 0);
                  sub = drop searchFrom (remove_line_comment (fst (remove_block_comment textLine)))
              in if sub = [] then
                   scan_lines lines startIndent body_start (Suc ln) depth
                     (snd (remove_block_comment textLine)) lis
                 else
                   (case scan_tokens (lines ! ln) searchFrom ln startIndent sub
                           (reset_lastIndex lis) depth of
                      None \<Rightarrow> None
                    | Some (Inl found) \<Rightarrow> Some (Some found)
                    | Some (Inr (depth', lis')) \<Rightarrow>
                        scan_lines lines startIndent body_start (Suc ln) depth'
                          (snd (remove_block_comment textLine)) lis')))
      else Some None)"
  by pat_completeness auto
termination
  by (relation "measure (\<lambda>(lines, startIndent, body_start, ln, rest). length lines - ln)") auto

declare scan_lines.simps [simp del]

definition endPos :: "string list \<Rightarrow> range \<Rightarrow> pos \<Rightarrow> (error + pos option) option" where
  "endPos lines rangeHead body_start =
     (case lineAt lines (fst (range_start rangeHead)) of
        Inl e \<Rightarrow> Some (Inl e)
      | Inr headLine \<Rightarrow>
          map_option Inr
            (scan_lines lines (leading_space headLine) body_start (fst body_start) 0 None
               [0, 0, 0, 0, 0, 0, 0, 0]))"

section \<open>The heuristic route: the end of the head\<close>

text \<open>\<open>while (i < len && s[i] !== quote) { if (s[i] === '\\') i += 2; else i++; }\<close>\<close>

function skip_string :: "string \<Rightarrow> char \<Rightarrow> nat \<Rightarrow> nat" where
  "skip_string s quote i =
     (if i < length s \<and> s ! i \<noteq> quote then
        (if s ! i = CHR 0x5C then skip_string s quote (i + 2) else skip_string s quote (i + 1))
      else i)"
  by pat_completeness auto
termination
  by (relation "measure (\<lambda>(s, quote, i). length s - i)") auto

declare skip_string.simps [simp del]

lemma skip_string_ge: "i \<le> skip_string s quote i"
proof (induction s quote i rule: skip_string.induct)
  case (1 s quote i)
  then show ?case
    by (subst skip_string.simps) (auto split: if_splits)
qed

lemma skip_string_less:
  "i < length s \<Longrightarrow> length s - Suc (skip_string s quote (Suc i)) < length s - i"
  using skip_string_ge [of "Suc i" s quote] by simp

lemma indexOf_ge_from: "indexOf s needle from = Some e \<Longrightarrow> needle \<noteq> [] \<Longrightarrow> from \<le> e"
  by (cases "from \<le> length s") (auto simp: indexOf_def)

lemma search_lines_result:
  "search_lines lines needle ln start = Some (ln2, idx) \<Longrightarrow> needle \<noteq> [] \<Longrightarrow>
     ln \<le> ln2 \<and> ln2 < length lines \<and> (ln2 = ln \<longrightarrow> start \<le> idx)"
proof (induction lines needle ln start rule: search_lines.induct)
  case (1 lines needle ln start)
  from 1(2) have lt: "ln < length lines"
    by (subst (asm) search_lines.simps) (auto split: if_splits)
  show ?case
  proof (cases "indexOf (lines ! ln) needle start")
    case None
    with 1(2) lt have "search_lines lines needle (Suc ln) 0 = Some (ln2, idx)"
      by (subst (asm) search_lines.simps) simp
    from 1(1) [OF lt None this 1(3)] show ?thesis by auto
  next
    case (Some e)
    with 1(2) lt have "ln2 = ln" "idx = e"
      by (subst (asm) search_lines.simps, simp)+
    with Some lt 1(3) show ?thesis
      by (auto dest: indexOf_ge_from)
  qed
qed

text \<open>The scan of the first strategy, from the opening parenthesis: the \<open>for\<close> over the
  lines and the \<open>while\<close> over the characters of \<open>lineText\<close> are one function. After a
  long bracket that closes on a later line, the source goes on at that line's number
  with the characters of the line it was reading: \<open>lineText\<close> is not read again.\<close>

function paren_scan :: "string list \<Rightarrow> nat \<Rightarrow> nat \<Rightarrow> string \<Rightarrow> int \<Rightarrow> pos option" where
  "paren_scan lines ln i lineText depth =
     (if i < length lineText then
        (if lineText ! i = CHR 0x22 \<or> lineText ! i = CHR 0x27 then
           paren_scan lines ln (skip_string lineText (lineText ! i) (i + 1) + 1) lineText depth
         else
           (case long_bracket_open lineText i of
              Some eq \<Rightarrow>
                (case search_lines lines (end_token eq) ln (i + (eq + 2)) of
                   None \<Rightarrow> None
                 | Some (ln2, idx) \<Rightarrow>
                     paren_scan lines ln2 (idx + length (end_token eq)) lineText depth)
            | None \<Rightarrow>
                if lineText ! i = CHR ''('' then paren_scan lines ln (i + 1) lineText (depth + 1)
                else if lineText ! i = CHR '')'' then
                  (if depth - 1 \<le> 0 then Some (ln, i)
                   else paren_scan lines ln (i + 1) lineText (depth - 1))
                else paren_scan lines ln (i + 1) lineText depth))
      else if Suc ln < length lines then paren_scan lines (Suc ln) 0 (lines ! Suc ln) depth
      else None)"
  by pat_completeness auto
termination
  by (relation "measures [\<lambda>(lines, ln, i, lineText, depth). length lines - ln,
                          \<lambda>(lines, ln, i, lineText, depth). length lineText - i]")
     (auto dest!: search_lines_result simp: end_token_def skip_string_less)

declare paren_scan.simps [simp del]

text \<open>The scan of the second and third strategies: parentheses only.\<close>

function simple_paren_scan :: "string list \<Rightarrow> nat \<Rightarrow> nat \<Rightarrow> int \<Rightarrow> pos option" where
  "simple_paren_scan lines ln i depth =
     (if ln < length lines then
        (if i < length (lines ! ln) then
           (if lines ! ln ! i = CHR ''('' then simple_paren_scan lines ln (i + 1) (depth + 1)
            else if lines ! ln ! i = CHR '')'' then
              (if depth - 1 \<le> 0 then Some (ln, i)
               else simple_paren_scan lines ln (i + 1) (depth - 1))
            else simple_paren_scan lines ln (i + 1) depth)
         else simple_paren_scan lines (Suc ln) 0 depth)
      else None)"
  by pat_completeness auto
termination
  by (relation "measures [\<lambda>(lines, ln, i, depth). length lines - ln,
                          \<lambda>(lines, ln, i, depth). length (lines ! ln) - i]") auto

declare simple_paren_scan.simps [simp del]

text \<open>Strategy 1: the first \<open>(\<close> of the stripped text at or after \<open>startOffset\<close>, which is
  the offset of the start of the symbol's whole range, and its closing parenthesis.\<close>

definition paren_search_start :: "string list \<Rightarrow> string \<Rightarrow> document_symbol \<Rightarrow> nat option" where
  "paren_search_start lines stripped docSymbol =
     indexOf stripped ''('' (offsetAt lines (fst (sym_range docSymbol)))"

definition strategy1 :: "string list \<Rightarrow> string \<Rightarrow> document_symbol \<Rightarrow> pos option" where
  "strategy1 lines stripped docSymbol =
     (case paren_search_start lines stripped docSymbol of
        None \<Rightarrow> None
      | Some parenIdx \<Rightarrow>
          (let parenLoc = positionAt lines parenIdx
           in if fst parenLoc < length lines
              then paren_scan lines (fst parenLoc) (snd parenLoc) (lines ! fst parenLoc) 0
              else None))"

definition do_or_repeat :: "string list \<Rightarrow> pos \<Rightarrow> pos option \<Rightarrow> pos option" where
  "do_or_repeat lines name_end headEnd =
     (let doLoc = (case findInDocument '' do'' lines name_end of
                     Some p \<Rightarrow> Some p
                   | None \<Rightarrow> findInDocument ''do'' lines name_end);
          repeatLoc = findInDocument ''repeat'' lines name_end
      in case headEnd of
           None \<Rightarrow> (case doLoc of Some d \<Rightarrow> Some d | None \<Rightarrow> repeatLoc)
         | Some h \<Rightarrow>
             (case doLoc of
                Some d \<Rightarrow> if pos_before h d then Some d else Some h
              | None \<Rightarrow> Some h))"

definition strategy2 :: "string list \<Rightarrow> pos \<Rightarrow> pos option" where
  "strategy2 lines head_start =
     (case findInDocument ''('' lines head_start of
        None \<Rightarrow> None
      | Some parenLoc \<Rightarrow> simple_paren_scan lines (fst parenLoc) (snd parenLoc) 0)"

definition strategy3 :: "string list \<Rightarrow> pos \<Rightarrow> pos option" where
  "strategy3 lines head_start =
     (case findInDocument ''function'' lines head_start of
        None \<Rightarrow> None
      | Some funcKeyword \<Rightarrow>
          (case findInDocument ''('' lines funcKeyword of
             None \<Rightarrow> None
           | Some parenAfterFunc \<Rightarrow>
               simple_paren_scan lines (fst parenAfterFunc) (snd parenAfterFunc) 0))"

definition strategy4 :: "string list \<Rightarrow> pos \<Rightarrow> pos \<Rightarrow> error + pos" where
  "strategy4 lines head_start name_end =
     (case lineAt lines (fst head_start) of
        Inl e \<Rightarrow> Inl e
      | Inr lineText \<Rightarrow>
          (case indexOf lineText '' do'' (snd head_start) of
             Some doIdx \<Rightarrow> Inr (fst head_start, doIdx + 1)
           | None \<Rightarrow>
               (case indexOf lineText ''repeat'' (snd head_start) of
                  Some repeatIdx \<Rightarrow> Inr (fst head_start, repeatIdx)
                | None \<Rightarrow> Inr name_end)))"

definition headEnd :: "string list \<Rightarrow> string \<Rightarrow> document_symbol \<Rightarrow> error + pos" where
  "headEnd lines stripped docSymbol =
     (let name_start = fst (sym_selectionRange docSymbol);
          name_end = snd (sym_selectionRange docSymbol)
      in case do_or_repeat lines name_end (strategy1 lines stripped docSymbol) of
           Some h \<Rightarrow> Inr h
         | None \<Rightarrow>
             (case strategy2 lines name_start of
                Some h \<Rightarrow> Inr h
              | None \<Rightarrow>
                  (case strategy3 lines name_start of
                     Some h \<Rightarrow> Inr h
                   | None \<Rightarrow> strategy4 lines name_start name_end)))"

definition rangeHead :: "string list \<Rightarrow> string \<Rightarrow> document_symbol \<Rightarrow> error + range" where
  "rangeHead lines stripped docSymbol =
     (case headEnd lines stripped docSymbol of
        Inl e \<Rightarrow> Inl e
      | Inr h \<Rightarrow>
          Inr (range_new (fst (fst (sym_selectionRange docSymbol)))
                 (snd (fst (sym_selectionRange docSymbol))) (fst h) (snd h)))"

section \<open>The heuristic route: the start of the body, and the result\<close>

text \<open>The body starts where the head ends; one character later when a \<open>)\<close> stands there;
  and at the start of the next line when nothing but white space follows on the line.\<close>

definition skip_paren :: "string \<Rightarrow> nat \<Rightarrow> nat" where
  "skip_paren lineText c = (if c < length lineText \<and> lineText ! c = CHR '')'' then c + 1 else c)"

definition body_start :: "string list \<Rightarrow> range \<Rightarrow> error + pos" where
  "body_start lines head =
     (case lineAt lines (fst (range_end head)) of
        Inl e \<Rightarrow> Inl e
      | Inr lineText \<Rightarrow>
          (let body_start_char = skip_paren lineText (snd (range_end head))
           in if trims_to_empty (drop body_start_char lineText)
              then Inr (fst (range_end head) + 1, 0)
              else Inr (fst (range_end head), body_start_char)))"

record resolved =
  res_rangeHead :: range
  res_rangeBody :: range
  res_attributes :: "string list"

definition heuristic :: "string \<Rightarrow> document_symbol \<Rightarrow> (error + resolved) option" where
  "heuristic docText docSymbol =
     (let lines = split_lines docText
      in case stripLuaComments docText of
           Inl e \<Rightarrow> Some (Inl e)
         | Inr stripped \<Rightarrow>
             (case rangeHead lines stripped docSymbol of
                Inl e \<Rightarrow> Some (Inl e)
              | Inr head \<Rightarrow>
                  (case body_start lines head of
                     Inl e \<Rightarrow> Some (Inl e)
                   | Inr bs \<Rightarrow>
                       (case endPos lines head bs of
                          None \<Rightarrow> None
                        | Some (Inl e) \<Rightarrow> Some (Inl e)
                        | Some (Inr None) \<Rightarrow> Some (Inl BodyUnresolvable)
                        | Some (Inr (Some e)) \<Rightarrow>
                            Some (Inr \<lparr>res_rangeHead = head,
                                       res_rangeBody =
                                         range_new (fst bs) (snd bs) (fst e) (snd e + length ''end''),
                                       res_attributes = []\<rparr>)))))"


section \<open>The structural route\<close>

text \<open>
  The parser is outside the provider. Its tree is modelled as the provider reads it, for
  a parse with \<open>locations\<close> and \<open>ranges\<close> on, as the provider asks: every node has a
  \<open>type\<close>, a \<open>loc\<close> and a \<open>range\<close> of two offsets, and further properties in the order of
  \<open>Object.keys\<close>. A property is a node, an array of nodes, or anything else (\<open>null\<close>, a
  name, a number, \<open>loc\<close>, \<open>range\<close>), in which the traversal finds no node.
\<close>

datatype node = Node (node_type: string) (node_range: "nat \<times> nat") (node_fields: "(string \<times> field) list")
  and field = FNode node | FList "node list" | FOther

definition candidate_types :: "string list" where
  "candidate_types =
     [''FunctionDeclaration'', ''FunctionStatement'', ''ForNumericStatement'',
      ''ForGenericStatement'', ''IfStatement'', ''RepeatStatement'']"

fun visit :: "nat \<Rightarrow> node \<Rightarrow> node option \<Rightarrow> node option"
  and visit_fields :: "nat \<Rightarrow> (string \<times> field) list \<Rightarrow> node option \<Rightarrow> node option"
  and visit_list :: "nat \<Rightarrow> node list \<Rightarrow> node option \<Rightarrow> node option" where
  "visit selOffset (Node t r ps) foundNode =
     visit_fields selOffset ps
       (if fst r \<le> selOffset \<and> selOffset \<le> snd r \<and> t \<in> set candidate_types
        then Some (Node t r ps) else foundNode)"
| "visit_fields selOffset [] foundNode = foundNode"
| "visit_fields selOffset ((k, FNode child) # ps) foundNode =
     visit_fields selOffset ps (visit selOffset child foundNode)"
| "visit_fields selOffset ((k, FList children) # ps) foundNode =
     visit_fields selOffset ps (visit_list selOffset children foundNode)"
| "visit_fields selOffset ((k, FOther) # ps) foundNode = visit_fields selOffset ps foundNode"
| "visit_list selOffset [] foundNode = foundNode"
| "visit_list selOffset (child # children) foundNode =
     visit_list selOffset children (visit selOffset child foundNode)"

text \<open>\<open>node.k\<close>, and \<open>node.k.range\<close> where \<open>node.k\<close> is a node.\<close>

definition field_of :: "node \<Rightarrow> string \<Rightarrow> field" where
  "field_of n k = (case map_of (node_fields n) k of Some p \<Rightarrow> p | None \<Rightarrow> FOther)"

definition range_of :: "field \<Rightarrow> (nat \<times> nat) option" where
  "range_of p = (case p of FNode n \<Rightarrow> Some (node_range n) | _ \<Rightarrow> None)"

definition list_of :: "field \<Rightarrow> node list" where
  "list_of p = (case p of FList ns \<Rightarrow> ns | _ \<Rightarrow> [])"

function findMatchingParen_loop :: "string \<Rightarrow> nat \<Rightarrow> int \<Rightarrow> nat option" where
  "findMatchingParen_loop src i depth =
     (if i < length src then
        (if src ! i = CHR 0x22 \<or> src ! i = CHR 0x27 then
           findMatchingParen_loop src (skip_string src (src ! i) (i + 1) + 1) depth
         else
           (case long_bracket_open src i of
              Some eq \<Rightarrow>
                (case indexOf src (end_token eq) (i + (eq + 2)) of
                   None \<Rightarrow> None
                 | Some endIdx \<Rightarrow>
                     findMatchingParen_loop src (endIdx + length (end_token eq)) depth)
            | None \<Rightarrow>
                if src ! i = CHR ''('' then findMatchingParen_loop src (i + 1) (depth + 1)
                else if src ! i = CHR '')'' then
                  (if depth - 1 = 0 then Some i
                   else findMatchingParen_loop src (i + 1) (depth - 1))
                else findMatchingParen_loop src (i + 1) depth))
      else None)"
  by pat_completeness auto
termination
  by (relation "measure (\<lambda>(src, i, depth). length src - i)")
     (auto dest!: indexOf_ge_from simp: end_token_def skip_string_less)

declare findMatchingParen_loop.simps [simp del]

definition findMatchingParen :: "string \<Rightarrow> nat \<Rightarrow> nat option" where
  "findMatchingParen src openIdx = findMatchingParen_loop src openIdx 0"

text \<open>The four offsets \<open>headStartIdx\<close>, \<open>headEndIdx\<close>, \<open>bodyStartIdx\<close>, \<open>bodyEndIdx\<close>, one
  definition for each branch of the dispatch on the kind of \<open>foundNode\<close>.\<close>

type_synonym offsets = "nat \<times> nat \<times> nat \<times> nat"

definition function_split :: "string \<Rightarrow> node \<Rightarrow> offsets" where
  "function_split src foundNode =
     (let nodeRangeStart = fst (node_range foundNode);
          nodeRangeEnd = snd (node_range foundNode);
          headStartIdx = (case range_of (field_of foundNode ''identifier'') of
                            Some r \<Rightarrow> fst r | None \<Rightarrow> nodeRangeStart);
          headEndIdx =
            (case indexOf src ''('' headStartIdx of
               Some openIdx \<Rightarrow>
                 if openIdx < nodeRangeEnd then
                   (case findMatchingParen src openIdx of
                      Some closeIdx \<Rightarrow> closeIdx + 1
                    | None \<Rightarrow> openIdx + 1)
                 else nodeRangeStart + 8
             | None \<Rightarrow> nodeRangeStart + 8)
      in (headStartIdx, headEndIdx, headEndIdx, nodeRangeEnd))"

definition assignment_split :: "string \<Rightarrow> node \<Rightarrow> node \<Rightarrow> offsets" where
  "assignment_split src foundNode funcNode =
     (let nodeRangeStart = fst (node_range foundNode);
          headStartIdx = (case list_of (field_of foundNode ''variables'') of
                            v # _ \<Rightarrow> fst (node_range v) | [] \<Rightarrow> nodeRangeStart);
          funcStart = fst (node_range funcNode);
          headEndIdx =
            (case indexOf src ''('' funcStart of
               Some openIdx \<Rightarrow>
                 (case findMatchingParen src openIdx of
                    Some closeIdx \<Rightarrow> closeIdx + 1
                  | None \<Rightarrow> funcStart + 8)
             | None \<Rightarrow> funcStart + 8)
      in (headStartIdx, headEndIdx, headEndIdx, snd (node_range funcNode)))"

definition select_clause :: "nat \<Rightarrow> node list \<Rightarrow> node option" where
  "select_clause selOffset clauses =
     (case find (\<lambda>c. fst (node_range c) \<le> selOffset \<and> selOffset \<le> snd (node_range c)) clauses of
        Some c \<Rightarrow> Some c
      | None \<Rightarrow> (case clauses of c # _ \<Rightarrow> Some c | [] \<Rightarrow> None))"

definition if_split :: "string \<Rightarrow> nat \<Rightarrow> node \<Rightarrow> offsets" where
  "if_split src selOffset foundNode =
     (let nodeRangeStart = fst (node_range foundNode);
          nodeRangeEnd = snd (node_range foundNode)
      in case select_clause selOffset (list_of (field_of foundNode ''clauses'')) of
           None \<Rightarrow> (nodeRangeStart, nodeRangeStart, nodeRangeStart, nodeRangeEnd)
         | Some clause \<Rightarrow>
             (let headStartIdx = fst (node_range clause);
                  bound = (case range_of (field_of clause ''body'') of
                             Some r \<Rightarrow> fst r | None \<Rightarrow> nodeRangeEnd);
                  fallback = (case range_of (field_of clause ''condition'') of
                                Some r \<Rightarrow> snd r | None \<Rightarrow> snd (node_range clause));
                  headEndIdx =
                    (case indexOf (toLowerCase src) ''then'' headStartIdx of
                       Some thenIdx \<Rightarrow> if thenIdx < bound then thenIdx + 4 else fallback
                     | None \<Rightarrow> fallback)
              in (headStartIdx, headEndIdx, headEndIdx, nodeRangeEnd)))"

definition loop_split :: "string \<Rightarrow> node \<Rightarrow> offsets" where
  "loop_split src foundNode =
     (let nodeRangeStart = fst (node_range foundNode);
          nodeRangeEnd = snd (node_range foundNode);
          headEndIdx =
            (case indexOf (toLowerCase src) '' do'' nodeRangeStart of
               Some doIdx \<Rightarrow> if doIdx < nodeRangeEnd then doIdx + 1 else nodeRangeStart + 4
             | None \<Rightarrow> nodeRangeStart + 4)
      in (nodeRangeStart, headEndIdx, headEndIdx, nodeRangeEnd))"

definition repeat_split :: "node \<Rightarrow> offsets" where
  "repeat_split foundNode =
     (fst (node_range foundNode), fst (node_range foundNode) + 6,
      fst (node_range foundNode) + 6, snd (node_range foundNode))"

definition default_split :: "node \<Rightarrow> offsets" where
  "default_split foundNode =
     (let headEndIdx = min (fst (node_range foundNode) + 10) (snd (node_range foundNode))
      in (fst (node_range foundNode), headEndIdx, headEndIdx, snd (node_range foundNode)))"

text \<open>The test of the assignment branch: the node is an \<open>AssignmentStatement\<close> whose
  \<open>init\<close> is an array that starts with a function; the result is that function,
  \<open>foundNode.init[0]\<close>.\<close>

definition function_assignment :: "node \<Rightarrow> node option" where
  "function_assignment foundNode =
     (if node_type foundNode = ''AssignmentStatement'' then
        (case field_of foundNode ''init'' of
           FList (funcNode # _) \<Rightarrow>
             if node_type funcNode = ''FunctionDeclaration'' \<or>
                node_type funcNode = ''FunctionExpression''
             then Some funcNode else None
         | _ \<Rightarrow> None)
      else None)"

definition head_body_split :: "string \<Rightarrow> nat \<Rightarrow> node \<Rightarrow> offsets" where
  "head_body_split src selOffset foundNode =
     (if node_type foundNode = ''FunctionDeclaration'' \<or> node_type foundNode = ''FunctionStatement''
      then function_split src foundNode
      else
        (case function_assignment foundNode of
           Some funcNode \<Rightarrow> assignment_split src foundNode funcNode
         | None \<Rightarrow>
             if node_type foundNode = ''IfStatement'' then if_split src selOffset foundNode
             else if node_type foundNode = ''ForNumericStatement'' \<or>
                     node_type foundNode = ''ForGenericStatement'' \<or>
                     node_type foundNode = ''WhileStatement''
             then loop_split src foundNode
             else if node_type foundNode = ''RepeatStatement'' then repeat_split foundNode
             else default_split foundNode))"

text \<open>\<open>new vscode.Range(start, end)\<close> of two positions.\<close>

definition range_of_positions :: "pos \<Rightarrow> pos \<Rightarrow> range" where
  "range_of_positions a b = range_new (fst a) (snd a) (fst b) (snd b)"

definition clamped_position :: "string list \<Rightarrow> string \<Rightarrow> nat \<Rightarrow> pos" where
  "clamped_position lines src idx = positionAt lines (max 0 (min idx (length src)))"

text \<open>The offsets of the structural route: \<^const>\<open>None\<close> when the parser is missing
  (\<open>luaparse\<close> is \<^const>\<open>None\<close>), when it throws (it returns \<^const>\<open>None\<close>), and when no
  node is found; the heuristic route is taken then.\<close>

definition structural_offsets ::
  "(string \<Rightarrow> node option) option \<Rightarrow> string \<Rightarrow> document_symbol \<Rightarrow> offsets option" where
  "structural_offsets luaparse src docSymbol =
     (case luaparse of
        None \<Rightarrow> None
      | Some parse \<Rightarrow>
          (case parse src of
             None \<Rightarrow> None
           | Some ast \<Rightarrow>
               (let selOffset = offsetAt (split_lines src) (fst (sym_selectionRange docSymbol))
                in case visit selOffset ast None of
                     None \<Rightarrow> None
                   | Some foundNode \<Rightarrow> Some (head_body_split src selOffset foundNode))))"

text \<open>The positions of the four offsets, and the two ranges built from them.\<close>

definition structural ::
  "(string \<Rightarrow> node option) option \<Rightarrow> string \<Rightarrow> document_symbol \<Rightarrow> resolved option" where
  "structural luaparse src docSymbol =
     (case structural_offsets luaparse src docSymbol of
        None \<Rightarrow> None
      | Some (headStartIdx, headEndIdx, bodyStartIdx, bodyEndIdx) \<Rightarrow>
          (let lines = split_lines src
           in Some \<lparr>res_rangeHead =
                      range_of_positions (clamped_position lines src headStartIdx)
                        (clamped_position lines src headEndIdx),
                    res_rangeBody =
                      range_of_positions (clamped_position lines src bodyStartIdx)
                        (clamped_position lines src bodyEndIdx),
                    res_attributes = []\<rparr>))"

definition getLanguageSpecificSymbolInformation ::
  "(string \<Rightarrow> node option) option \<Rightarrow> string \<Rightarrow> document_symbol \<Rightarrow> (error + resolved) option" where
  "getLanguageSpecificSymbolInformation luaparse docText docSymbol =
     (case structural luaparse docText docSymbol of
        Some r \<Rightarrow> Some (Inr r)
      | None \<Rightarrow> heuristic docText docSymbol)"

section \<open>Where a found terminator stands\<close>
















section \<open>The token loop ends\<close>

text \<open>
  From \<open>lastIndex\<close> 0, the executions of one regular expression go through its matches
  in turn, then return \<open>null\<close> and start again: a cycle. The loop over a line breaks in
  the round where all eight return \<open>null\<close>, which comes at the latest when the number of
  rounds is a common multiple of the lengths of the eight cycles.
\<close>

definition next_lastIndex :: "string \<Rightarrow> string \<Rightarrow> nat \<Rightarrow> nat" where
  "next_lastIndex kw s li = snd (regex_exec kw s li)"

lemma regex_exec_None: "fst (regex_exec kw s li) = None \<Longrightarrow> regex_exec kw s li = (None, 0)"
  by (auto simp: regex_exec_def split: option.splits)

lemma regex_exec_Some:
  assumes "fst (regex_exec kw s li) = Some i"
  shows "regex_exec kw s li = (Some i, i + length kw) \<and> li \<le> i \<and> i + length kw \<le> length s"
proof -
  from assms have f: "find (kw_match_at kw s) [li..<Suc (length s)] = Some i"
    by (auto simp: regex_exec_def simp del: upt_Suc split: option.splits)
  then have "i \<in> set [li..<Suc (length s)]" and m: "kw_match_at kw s i"
    by (metis find_Some_iff nth_mem)+
  then have "li \<le> i"
    by (simp only: set_upt atLeastLessThan_iff)
  with m f show ?thesis
    by (simp add: regex_exec_def kw_match_at_def)
qed

lemma exec_eventually_null:
  assumes "kw \<noteq> []"
  shows "\<exists>q. fst (regex_exec kw s ((next_lastIndex kw s ^^ q) li)) = None"
proof (induction "Suc (length s) - li" arbitrary: li rule: less_induct)
  case less
  show ?case
  proof (cases "fst (regex_exec kw s li)")
    case None
    then have "fst (regex_exec kw s ((next_lastIndex kw s ^^ 0) li)) = None" by simp
    then show ?thesis by blast
  next
    case (Some i)
    from assms have pos: "0 < length kw" by simp
    from regex_exec_Some [OF Some]
    have e: "regex_exec kw s li = (Some i, i + length kw)" "li \<le> i"
      "i + length kw \<le> length s"
      by auto
    from e(1) have n1: "next_lastIndex kw s li = i + length kw"
      by (simp add: next_lastIndex_def)
    from e(2,3) pos have n2: "li < i + length kw" "li \<le> length s"
      by linarith+
    note n = n1 n2
    then have "Suc (length s) - next_lastIndex kw s li < Suc (length s) - li" by simp
    from less [OF this] obtain q where
      "fst (regex_exec kw s ((next_lastIndex kw s ^^ q) (next_lastIndex kw s li))) = None"
      by blast
    then have "fst (regex_exec kw s ((next_lastIndex kw s ^^ Suc q) li)) = None"
      by (simp add: funpow_swap1)
    then show ?thesis by blast
  qed
qed

lemma exec_period:
  assumes "kw \<noteq> []"
  shows "\<exists>p\<ge>1. \<forall>m\<ge>1. fst (regex_exec kw s ((next_lastIndex kw s ^^ (m * p - 1)) 0)) = None"
proof -
  let ?f = "next_lastIndex kw s"
  from exec_eventually_null [OF assms, of s 0] obtain q where
    q: "fst (regex_exec kw s ((?f ^^ q) 0)) = None"
    by blast
  then have "(?f ^^ Suc q) 0 = 0"
    by (simp add: next_lastIndex_def regex_exec_None)
  then have cyc: "(?f ^^ (n * Suc q)) 0 = 0" for n
  proof (induction n)
    case 0
    show ?case by simp
  next
    case (Suc n)
    have "(?f ^^ (Suc n * Suc q)) 0 = (?f ^^ (n * Suc q)) ((?f ^^ Suc q) 0)"
      by (simp only: mult_Suc funpow_add o_apply add.commute [of "Suc q"])
    with Suc show ?case by simp
  qed
  have "fst (regex_exec kw s ((?f ^^ (m * Suc q - 1)) 0)) = None" if "m \<ge> 1" for m
  proof -
    from that obtain n where m: "m = Suc n" by (cases m) auto
    have "m * Suc q - 1 = q + n * Suc q" by (simp add: m)
    then have "(?f ^^ (m * Suc q - 1)) 0 = (?f ^^ q) ((?f ^^ (n * Suc q)) 0)"
      by (simp add: funpow_add)
    with cyc q show ?thesis by simp
  qed
  then show ?thesis by (intro exI [of _ "Suc q"]) simp
qed

text \<open>A round over any list of keywords.\<close>

definition exec_list :: "string list \<Rightarrow> string \<Rightarrow> nat list \<Rightarrow> (nat option \<times> nat) list" where
  "exec_list kws sub lis = map (\<lambda>(kw, li). regex_exec kw sub li) (zip kws lis)"

lemma exec_all_exec_list: "exec_all sub lis = exec_list token_keywords sub lis"
  by (simp add: exec_all_def exec_list_def)

lemma round_funpow_Cons:
  "((\<lambda>lis. map snd (exec_list (kw # kws) sub lis)) ^^ k) (l # ls) =
     (next_lastIndex kw sub ^^ k) l # ((\<lambda>lis. map snd (exec_list kws sub lis)) ^^ k) ls"
  by (induction k) (simp_all add: exec_list_def next_lastIndex_def)

lemma rounds_period:
  assumes "\<forall>kw \<in> set kws. kw \<noteq> []"
  shows "\<exists>N\<ge>1. \<forall>m\<ge>1. list_all (\<lambda>r. fst r = None)
           (exec_list kws sub
              (((\<lambda>lis. map snd (exec_list kws sub lis)) ^^ (m * N - 1))
                 (replicate (length kws) 0)))"
  using assms
proof (induction kws)
  case Nil
  show ?case by (intro exI [of _ 1]) (simp add: exec_list_def)
next
  case (Cons kw kws)
  then obtain N where N: "N \<ge> 1"
    "\<And>m. m \<ge> 1 \<Longrightarrow> list_all (\<lambda>r. fst r = None)
           (exec_list kws sub
              (((\<lambda>lis. map snd (exec_list kws sub lis)) ^^ (m * N - 1))
                 (replicate (length kws) 0)))"
    by auto
  from Cons.prems exec_period [of kw sub] obtain p where p: "p \<ge> 1"
    "\<And>m. m \<ge> 1 \<Longrightarrow> fst (regex_exec kw sub ((next_lastIndex kw sub ^^ (m * p - 1)) 0)) = None"
    by auto
  have "list_all (\<lambda>r. fst r = None)
           (exec_list (kw # kws) sub
              (((\<lambda>lis. map snd (exec_list (kw # kws) sub lis)) ^^ (m * (p * N) - 1))
                 (replicate (length (kw # kws)) 0)))" if m: "m \<ge> 1" for m
  proof -
    have a: "fst (regex_exec kw sub ((next_lastIndex kw sub ^^ (m * (p * N) - 1)) 0)) = None"
      using p(2) [of "m * N"] m N(1) by (simp add: mult.assoc mult.commute mult.left_commute)
    have b: "list_all (\<lambda>r. fst r = None)
           (exec_list kws sub
              (((\<lambda>lis. map snd (exec_list kws sub lis)) ^^ (m * (p * N) - 1))
                 (replicate (length kws) 0)))"
      using N(2) [of "m * p"] m p(1) by (simp add: mult.assoc)
    show ?thesis
      using a b by (simp add: round_funpow_Cons) (simp add: exec_list_def)
  qed
  moreover have "p * N \<ge> 1" using p(1) N(1) by simp
  ultimately show ?case by blast
qed


lemma candidates_of_Nil:
  "list_all (\<lambda>r. fst r = None) results \<Longrightarrow> candidates_of results = []"
proof -
  assume a: "list_all (\<lambda>r. fst r = None) results"
  have "(case x of (r, kw) \<Rightarrow> map_option (\<lambda>idx. (idx, kw)) (fst r)) = None"
    if "x \<in> set (zip results token_keywords)" for x
  proof -
    obtain r kw where x: "x = (r, kw)" by (cases x)
    with that have "r \<in> set results" by (auto dest: set_zip_leftD)
    with a have "fst r = None" by (simp add: list_all_iff)
    with x show ?thesis by simp
  qed
  then have "filter (\<lambda>x. (case x of (r, kw) \<Rightarrow> map_option (\<lambda>idx. (idx, kw)) (fst r)) \<noteq> None)
          (zip results token_keywords) = []"
    by (simp add: filter_empty_conv)
  then show ?thesis
    by (simp add: candidates_of_def map_filter_def)
qed

lemma candidates_of_Nil_D:
  assumes "candidates_of results = []" "length results \<le> length token_keywords"
  shows "list_all (\<lambda>r. fst r = None) results"
proof -
  let ?f = "\<lambda>(r, kw). map_option (\<lambda>idx. (idx, kw)) (fst r)"
  from assms(1) have "length (sort_key fst (List.map_filter ?f (zip results token_keywords))) = 0"
    by (simp add: candidates_of_def)
  then have "List.map_filter ?f (zip results token_keywords) = []"
    by (simp only: length_sort length_0_conv)
  then have "filter (\<lambda>x. ?f x \<noteq> None) (zip results token_keywords) = []"
    by (simp add: map_filter_def)
  then have none: "?f x = None" if "x \<in> set (zip results token_keywords)" for x
    using that by (simp only: filter_empty_conv) blast
  show ?thesis
    unfolding list_all_iff
  proof
    fix r assume "r \<in> set results"
    then obtain i where i: "i < length results" "results ! i = r"
      by (auto simp: in_set_conv_nth)
    with assms(2) have "i < length token_keywords" by simp
    with i have "zip results token_keywords ! i = (r, token_keywords ! i)"
        "i < length (zip results token_keywords)"
      by simp_all
    then have "(r, token_keywords ! i) \<in> set (zip results token_keywords)"
      by (metis nth_mem)
    from none [OF this] show "fst r = None" by simp
  qed
qed

definition zeros :: "nat list" where
  "zeros = [0, 0, 0, 0, 0, 0, 0, 0]"

lemma length_exec_all: "length lis = 8 \<Longrightarrow> length (exec_all sub lis) = 8"
  by (simp add: exec_all_def token_keywords_def)

lemma exec_all_null_zeros:
  assumes "list_all (\<lambda>r. fst r = None) (exec_all sub lis)" "length lis = 8"
  shows "map snd (exec_all sub lis) = zeros"
proof -
  have "\<forall>r \<in> set (exec_all sub lis). snd r = 0"
  proof
    fix r assume r: "r \<in> set (exec_all sub lis)"
    with assms(1) have "fst r = None" by (simp add: list_all_iff)
    moreover from r obtain kw li where "r = regex_exec kw sub li"
      by (auto simp: exec_all_def)
    ultimately show "snd r = 0"
      using regex_exec_None [of kw sub li] by simp
  qed
  then have "map snd (exec_all sub lis) = replicate (length (exec_all sub lis)) 0"
    by (simp add: map_replicate_const [symmetric] cong: map_cong)
  with length_exec_all [OF assms(2)] show ?thesis
    by (simp add: zeros_def numeral_eq_Suc)
qed

lemma scan_tokens_returns_from:
  assumes null: "list_all (\<lambda>r. fst r = None)
      (exec_all sub (((\<lambda>lis. map snd (exec_all sub lis)) ^^ K) Z))"
  shows "k \<le> K \<Longrightarrow>
    \<exists>y. scan_tokens lineText searchFrom ln startIndent sub
           (((\<lambda>lis. map snd (exec_all sub lis)) ^^ k) Z) depth = Some y"
proof (induction "K - k" arbitrary: k depth rule: less_induct)
  case less
  let ?step = "\<lambda>lis. map snd (exec_all sub lis)"
  let ?lis = "(?step ^^ k) Z"
  show ?case
  proof (cases "candidates_of (exec_all sub ?lis)")
    case Nil
    then show ?thesis by (subst scan_tokens.simps) simp
  next
    case (Cons pick rest)
    have "k \<noteq> K"
    proof
      assume "k = K"
      with null have "candidates_of (exec_all sub ?lis) = []"
        by (simp add: candidates_of_Nil)
      with Cons show False by simp
    qed
    with less.prems have lt: "K - Suc k < K - k" "Suc k \<le> K" by auto
    have nx: "?step ?lis = (?step ^^ Suc k) Z" by simp
    have rec: "\<exists>y. scan_tokens lineText searchFrom ln startIndent sub (?step ?lis) d = Some y" for d
      unfolding nx using lt by (rule less.hyps)
    show ?thesis
      by (subst scan_tokens.simps) (simp add: Cons rec del: funpow.simps)
  qed
qed

lemma scan_tokens_returns:
  "\<exists>y. scan_tokens lineText searchFrom ln startIndent sub zeros depth = Some y"
proof -
  have "\<forall>kw \<in> set token_keywords. kw \<noteq> []"
    by (simp add: token_keywords_def)
  from rounds_period [OF this, of sub] obtain N where
    "list_all (\<lambda>r. fst r = None)
       (exec_list token_keywords sub
          (((\<lambda>lis. map snd (exec_list token_keywords sub lis)) ^^ (1 * N - 1))
             (replicate (length token_keywords) 0)))"
    by (metis le_refl)
  moreover have "replicate (length token_keywords) 0 = zeros"
    by (simp add: token_keywords_def zeros_def)
  ultimately have "list_all (\<lambda>r. fst r = None)
      (exec_all sub (((\<lambda>lis. map snd (exec_all sub lis)) ^^ (N - 1)) zeros))"
    by (simp add: exec_all_exec_list [abs_def])
  from scan_tokens_returns_from [OF this, of 0] show ?thesis
    by simp
qed

lemma scan_tokens_leaves_zeros:
  assumes "scan_tokens lineText searchFrom ln startIndent sub lis depth = Some y"
  shows "length lis = 8 \<longrightarrow> (case y of Inl p \<Rightarrow> True | Inr dl \<Rightarrow> snd dl = zeros)"
proof (rule scan_tokens.raw_induct
    [where P = "\<lambda>lineText searchFrom ln startIndent sub lis depth y.
       length lis = 8 \<longrightarrow> (case y of Inl p \<Rightarrow> True | Inr dl \<Rightarrow> snd dl = zeros)",
     OF _ assms], goal_cases)
  case prems: (1 f lineText searchFrom ln startIndent sub lis depth y)
  show ?case
  proof
    assume len: "length lis = 8"
    then have len': "length (map snd (exec_all sub lis)) = 8"
      by (simp add: length_exec_all)
    show "case y of Inl p \<Rightarrow> True | Inr dl \<Rightarrow> snd dl = zeros"
    proof (cases "candidates_of (exec_all sub lis)")
      case Nil
      then have "list_all (\<lambda>r. fst r = None) (exec_all sub lis)"
        by (rule candidates_of_Nil_D) (simp add: length_exec_all [OF len] token_keywords_def)
      then have "map snd (exec_all sub lis) = zeros"
        using len by (rule exec_all_null_zeros)
      with prems(2) Nil show ?thesis by auto
    next
      case (Cons pick rest)
      with prems(2) len' show ?thesis
        by (auto split: if_splits dest!: prems(1))
    qed
  qed
qed

lemma scan_lines_returns:
  "lis = zeros \<Longrightarrow> \<exists>r. scan_lines lines startIndent bs ln depth bc lis = Some r"
proof (induction lines startIndent bs ln depth bc lis rule: scan_lines.induct)
  case (1 lines startIndent body_start ln depth blockClosePattern lis)
  show ?case
  proof (cases "ln < length lines")
    case False
    then show ?thesis by (subst scan_lines.simps) simp
  next
    case lt: True
    show ?thesis
    proof (cases "after_block_comment (lines ! ln) blockClosePattern")
      case None
      from 1(1) [OF lt None 1(4)] lt None show ?thesis
        by (subst scan_lines.simps) simp
    next
      case (Some textLine)
      let ?searchFrom = "if ln = fst body_start then snd body_start else 0"
      let ?sub = "drop ?searchFrom (remove_line_comment (fst (remove_block_comment textLine)))"
      show ?thesis
      proof (cases "?sub = []")
        case True
        from 1(2) [OF lt Some refl refl True 1(4)] lt Some True show ?thesis
          by (subst scan_lines.simps) (simp add: Let_def)
      next
        case False
        have rz: "reset_lastIndex lis = zeros"
          using 1(4) by (simp add: reset_lastIndex_def zeros_def)
        from scan_tokens_returns obtain y where
          y: "scan_tokens (lines ! ln) ?searchFrom ln startIndent ?sub (reset_lastIndex lis) depth =
                Some y"
          unfolding rz by blast
        show ?thesis
        proof (cases y)
          case (Inl found)
          with lt Some False y show ?thesis
            by (subst scan_lines.simps) (simp add: Let_def)
        next
          case (Inr dl)
          obtain depth' lis' where dl: "dl = (depth', lis')" by (cases dl)
          from scan_tokens_leaves_zeros [OF y] rz Inr dl have "lis' = zeros"
            by (simp add: zeros_def)
          from 1(3) [OF lt Some refl refl False y Inr dl [symmetric] this] lt Some False y Inr dl
          show ?thesis
            by (subst scan_lines.simps) (simp add: Let_def)
        qed
      qed
    qed
  qed
qed

section \<open>Constructs nested on lines of their own\<close>

definition if_line :: string where "if_line = ''  if a then''"
definition end_line :: string where "end_line = ''  end''"

lemma if_line_round1:
  "candidates_of (exec_all if_line zeros) = [(2, ''if'')] \<and>
   map snd (exec_all if_line zeros) = [0, 0, 0, 4, 0, 0, 0, 0] \<and>
   else_before (take (Suc (Suc 0)) if_line) = False"
  by code_simp

lemma if_line_round2:
  "candidates_of (exec_all if_line [0, 0, 0, 4, 0, 0, 0, 0]) = [] \<and>
   map snd (exec_all if_line [0, 0, 0, 4, 0, 0, 0, 0]) = zeros"
  by code_simp

lemma scan_if_line:
  "scan_tokens if_line 0 ln startIndent if_line zeros depth = Some (Inr (Suc depth, zeros))"
  by (subst scan_tokens.simps, simp add: if_line_round1,
      subst scan_tokens.simps, simp add: if_line_round2)

lemma end_line_round1:
  "candidates_of (exec_all end_line zeros) = [(2, ''end'')] \<and>
   map snd (exec_all end_line zeros) = [0, 0, 0, 0, 0, 0, 5, 0]"
  by code_simp

lemma end_line_round2:
  "candidates_of (exec_all end_line [0, 0, 0, 0, 0, 0, 5, 0]) = [] \<and>
   map snd (exec_all end_line [0, 0, 0, 0, 0, 0, 5, 0]) = zeros"
  by code_simp

lemma scan_end_line:
  "scan_tokens end_line 0 ln startIndent end_line zeros (Suc depth) = Some (Inr (depth, zeros))"
  by (subst scan_tokens.simps, simp add: end_line_round1,
      subst scan_tokens.simps, simp add: end_line_round2)

lemma last_line_round:
  "candidates_of (exec_all ''end'' zeros) = [(0, ''end'')] \<and> leading_space ''end'' = []"
  by code_simp

lemma scan_last_line:
  "scan_tokens ''end'' 0 ln [] ''end'' zeros 0 = Some (Inl (ln, 0))"
  by (subst scan_tokens.simps) (simp add: last_line_round)

lemma plain_lines:
  "remove_block_comment if_line = (if_line, None) \<and> remove_line_comment if_line = if_line \<and>
   remove_block_comment end_line = (end_line, None) \<and> remove_line_comment end_line = end_line \<and>
   remove_block_comment ''end'' = (''end'', None) \<and> remove_line_comment ''end'' = ''end'' \<and>
   if_line \<noteq> [] \<and> end_line \<noteq> []"
  by code_simp

lemma scan_lines_step:
  assumes "ln < length lines" "lines ! ln = L"
    and "remove_block_comment L = (L, None)" "remove_line_comment L = L" "L \<noteq> []"
    and "snd bs = 0"
    and "scan_tokens L 0 ln startIndent L zeros depth = Some y"
  shows "scan_lines lines startIndent bs ln depth None zeros =
    (case y of Inl found \<Rightarrow> Some (Some found)
     | Inr (depth', lis') \<Rightarrow> scan_lines lines startIndent bs (Suc ln) depth' None lis')"
proof -
  have rz: "reset_lastIndex zeros = zeros"
    by (simp add: reset_lastIndex_def zeros_def)
  show ?thesis
  proof (cases y)
    case (Inl found)
    with assms rz show ?thesis
      by (subst scan_lines.simps) (auto simp: after_block_comment_def Let_def)
  next
    case (Inr dl)
    with assms rz show ?thesis
      by (cases dl, subst scan_lines.simps)
         (auto simp: after_block_comment_def Let_def)
  qed
qed

lemma scan_if_lines:
  "snd bs = 0 \<Longrightarrow>
   scan_lines (pre @ replicate k if_line @ post) startIndent bs (length pre) depth None zeros =
   scan_lines (pre @ replicate k if_line @ post) startIndent bs (length pre + k) (depth + k)
     None zeros"
proof (induction k arbitrary: pre depth)
  case 0
  show ?case by simp
next
  case (Suc k)
  let ?lines = "pre @ replicate (Suc k) if_line @ post"
  have "scan_lines ?lines startIndent bs (length pre) depth None zeros =
      scan_lines ?lines startIndent bs (Suc (length pre)) (Suc depth) None zeros"
    using Suc.prems plain_lines
    by (subst scan_lines_step [where L = if_line and y = "Inr (Suc depth, zeros)"])
       (simp_all add: scan_if_line nth_append)
  also have "?lines = (pre @ [if_line]) @ replicate k if_line @ post" by simp
  also have "scan_lines \<dots> startIndent bs (Suc (length pre)) (Suc depth) None zeros =
      scan_lines ((pre @ [if_line]) @ replicate k if_line @ post) startIndent bs
        (length (pre @ [if_line]) + k) (Suc depth + k) None zeros"
    using Suc.IH [OF Suc.prems, of "pre @ [if_line]" "Suc depth"] by simp
  finally show ?case by simp
qed

lemma scan_end_lines:
  "snd bs = 0 \<Longrightarrow>
   scan_lines (pre @ replicate k end_line @ post) startIndent bs (length pre) (depth + k) None zeros =
   scan_lines (pre @ replicate k end_line @ post) startIndent bs (length pre + k) depth
     None zeros"
proof (induction k arbitrary: pre)
  case 0
  show ?case by simp
next
  case (Suc k)
  let ?lines = "pre @ replicate (Suc k) end_line @ post"
  have "scan_lines ?lines startIndent bs (length pre) (depth + Suc k) None zeros =
      scan_lines ?lines startIndent bs (Suc (length pre)) (depth + k) None zeros"
    using Suc.prems plain_lines
    by (subst scan_lines_step [where L = end_line and y = "Inr (depth + k, zeros)"])
       (simp_all add: scan_end_line nth_append)
  also have "?lines = (pre @ [end_line]) @ replicate k end_line @ post" by simp
  also have "scan_lines \<dots> startIndent bs (Suc (length pre)) (depth + k) None zeros =
      scan_lines ((pre @ [end_line]) @ replicate k end_line @ post) startIndent bs
        (length (pre @ [end_line]) + k) depth None zeros"
    using Suc.IH [OF Suc.prems, of "pre @ [end_line]"] by simp
  finally show ?case by simp
qed

lemma scan_last:
  "snd bs = 0 \<Longrightarrow>
   scan_lines (pre @ [''end'']) [] bs (length pre) 0 None zeros = Some (Some (length pre, 0))"
  using plain_lines
  by (subst scan_lines_step [where L = "''end''" and y = "Inl (length pre, 0)"])
     (simp_all add: scan_last_line)

definition nested_lines :: "nat \<Rightarrow> string list" where
  "nested_lines n =
     [''function f()''] @ replicate n if_line @ replicate n end_line @ [''end'']"

section \<open>provideOutlineForRange\<close>

text \<open>\<open>OutlineUtils.getDocumentSymbolsInRange\<close> is called before the \<open>throw\<close> and is
  outside the provider: it is a parameter, and it may itself fail. The value it
  returns is not used.\<close>

definition provideOutlineForRange ::
  "('uri \<Rightarrow> 'range \<Rightarrow> error + 'syms) \<Rightarrow> 'uri \<Rightarrow> 'range \<Rightarrow> error + 'out list" where
  "provideOutlineForRange getDocumentSymbolsInRange uri symbolRange =
     (case getDocumentSymbolsInRange uri symbolRange of
        Inl e \<Rightarrow> Inl e
      | Inr symbolsInRange \<Rightarrow> Inl NotImplemented)"


section \<open>Claims about stripLuaComments and provideOutlineForRange\<close>

text \<open>
  C7 does not hold of the code. The stripper knows nothing of string literals: \<open>--\<close>
  inside a quoted string or inside a long string starts a comment for it. The text
  \<open>s = "--x" .. y\<close> has no comment; of its fourteen characters the stripper blanks the
  last nine, from the \<open>--\<close> on: the rest of the string, its closing quote, and the code
  after it. In \<open>x = [[a -- b]] .. y\<close>, which has no comment either, the rest of the long
  string, its closing bracket and the code after it are blanked.
\<close>

theorem stripLuaComments_blanks_string_text:
  "stripLuaComments ''s = \"--x\" .. y'' = Inr ''s = \"         '' \<and>
   stripLuaComments ''x = [[a -- b]] .. y'' = Inr ''x = [[a            ''"
  by code_simp

text \<open>
  C10. \<open>stripLuaComments\<close> blanks the line breaks inside a block comment: the text
  \<open>x--[[a\<close>, line break, \<open>b]]y\<close> has one line break and its stripped text has none, at
  the same length.
\<close>

theorem stripLuaComments_blanks_newlines:
  "stripLuaComments ''x--[[a\<newline>b]]y'' = Inr ''x         y'' \<and>
   count_list ''x         y'' newline < count_list ''x--[[a\<newline>b]]y'' newline \<and>
   length ''x         y'' = length ''x--[[a\<newline>b]]y''"
  by code_simp

text \<open>
  C9. \<open>provideOutlineForRange\<close> never returns a result, empty or not; when the helper it
  calls first returns, what it throws is the not-implemented error.
\<close>

theorem provideOutlineForRange_not_implemented:
  "(\<forall>ret. provideOutlineForRange getSyms uri symbolRange \<noteq> Inr ret) \<and>
   (\<forall>syms. getSyms uri symbolRange = Inr syms \<longrightarrow>
      provideOutlineForRange getSyms uri symbolRange = Inl NotImplemented)"
  by (auto simp: provideOutlineForRange_def split: sum.splits)

theorem provideOutlineForRange_not_implemented_witness:
  "provideOutlineForRange (\<lambda>uri r. Inr [uri, r]) (0::nat) (1::nat) =
     (Inl NotImplemented :: error + nat list)"
  by (rule provideOutlineForRange_not_implemented [THEN conjunct2, rule_format]) simp

section \<open>Claims about the head and the body\<close>










definition function_chunk :: node where
  "function_chunk =
     Node ''Chunk'' (0, 34)
       [(''body'', FList
           [Node ''FunctionDeclaration'' (0, 34)
              [(''identifier'', FNode (Node ''Identifier'' (9, 12) [])),
               (''parameters'', FList [Node ''Identifier'' (13, 14) [],
                                       Node ''Identifier'' (15, 16) []]),
               (''body'', FList [Node ''ReturnStatement'' (20, 30) []])]])]"




section \<open>Claims about the end of the body\<close>

text \<open>
  C8. When the heuristic route is taken and its scan for the end of the body reaches the
  end of the document with no terminator accepted, the call throws the error of the
  body that cannot be resolved, and returns no range: so for \<open>function f()\<close>, line break,
  \<open>print(1)\<close> with no \<open>end\<close>, on which the parser throws.
\<close>

theorem unterminated_body_is_unresolvable:
  assumes "structural luaparse src docSymbol = None"
    and "stripLuaComments src = Inr stripped"
    and "rangeHead (split_lines src) stripped docSymbol = Inr head"
    and "body_start (split_lines src) head = Inr bs"
    and "endPos (split_lines src) head bs = Some (Inr None)"
  shows "getLanguageSpecificSymbolInformation luaparse src docSymbol =
    Some (Inl BodyUnresolvable)"
  using assms
  by (simp add: getLanguageSpecificSymbolInformation_def heuristic_def)

theorem unterminated_body_is_unresolvable_witness:
  "getLanguageSpecificSymbolInformation (Some (\<lambda>src. None)) ''function f()\<newline>  print(1)''
     \<lparr>sym_range = ((0, 0), (1, 10)), sym_selectionRange = ((0, 9), (0, 10))\<rparr> =
   Some (Inl BodyUnresolvable)"
  by (rule unterminated_body_is_unresolvable
        [where stripped = "''function f()\<newline>  print(1)''" and head = "((0, 9), (0, 11))"
           and bs = "(1, 0)"];
      code_simp)

text \<open>
  C1 does not hold of the code. Each round of the token loop executes all eight regular
  expressions and acts on the earliest match only, and the other matches of the round
  are never looked at again. In \<open>if x then return end\<close> on one line the \<open>end\<close> is matched
  in the round that counts the \<open>if\<close> and is lost: the depth stays 1 after the line, the
  function's own \<open>end\<close> only brings it back to 0, and the call throws. With \<open>if\<close> and
  \<open>function\<close> opened on one line only the \<open>if\<close> is counted, and the \<open>end\<close> of the \<open>if\<close>
  on line 4 is returned in place of the function's on line 5.
\<close>

theorem one_line_if_loses_end:
  "scan_tokens ''  if x then return end'' 0 1 [] ''  if x then return end''
     [0, 0, 0, 0, 0, 0, 0, 0] 0 = Some (Inr (1, [0, 0, 0, 0, 0, 0, 0, 0])) \<and>
   getLanguageSpecificSymbolInformation None
     ''function f()\<newline>  if x then return end\<newline>end''
     \<lparr>sym_range = ((0, 0), (2, 3)), sym_selectionRange = ((0, 9), (0, 10))\<rparr> =
   Some (Inl BodyUnresolvable) \<and>
   getLanguageSpecificSymbolInformation None
     ''function f()\<newline>if a then g = function()\<newline>return 1\<newline>end\<newline>end\<newline>end''
     \<lparr>sym_range = ((0, 0), (5, 3)), sym_selectionRange = ((0, 9), (0, 10))\<rparr> =
   Some (Inr \<lparr>res_rangeHead = ((0, 9), (0, 11)), res_rangeBody = ((1, 0), (4, 3)),
              res_attributes = []\<rparr>)"
  by code_simp

text \<open>
  C4 does not hold of the code. The scan for the end of the body removes comments and
  nothing else: a keyword inside a quoted string is counted. The two documents below
  have the same length and differ only inside the string; the body ends at the
  function's \<open>end\<close> for the one and inside the string for the other.
\<close>

theorem keyword_in_string_moves_body_end:
  "length ''function f()\<newline>x = \"end\"\<newline>end'' = length ''function f()\<newline>x = \"abc\"\<newline>end'' \<and>
   getLanguageSpecificSymbolInformation None ''function f()\<newline>x = \"abc\"\<newline>end''
     \<lparr>sym_range = ((0, 0), (2, 3)), sym_selectionRange = ((0, 9), (0, 10))\<rparr> =
   Some (Inr \<lparr>res_rangeHead = ((0, 9), (0, 11)), res_rangeBody = ((1, 0), (2, 3)),
              res_attributes = []\<rparr>) \<and>
   getLanguageSpecificSymbolInformation None ''function f()\<newline>x = \"end\"\<newline>end''
     \<lparr>sym_range = ((0, 0), (2, 3)), sym_selectionRange = ((0, 9), (0, 10))\<rparr> =
   Some (Inr \<lparr>res_rangeHead = ((0, 9), (0, 11)), res_rangeBody = ((1, 0), (1, 8)),
              res_attributes = []\<rparr>)"
  by code_simp

text \<open>
  C5 does not hold of the code. The first strategy searches the stripped text from the
  offset of the start of the symbol's whole range, not from the end of its name: for the
  name \<open>bar\<close> in \<open>foo(1).bar = function(x) end\<close>, whose end is offset 10, the
  parenthesis taken is the one at offset 3, before the name, and not the one at offset
  21; its closing parenthesis is at character 5.
\<close>

theorem paren_search_starts_at_range_start:
  "stripLuaComments ''foo(1).bar = function(x) end'' = Inr ''foo(1).bar = function(x) end'' \<and>
   offsetAt (split_lines ''foo(1).bar = function(x) end'') (0, 10) = 10 \<and>
   indexOf ''foo(1).bar = function(x) end'' ''('' 10 = Some 21 \<and>
   paren_search_start (split_lines ''foo(1).bar = function(x) end'')
     ''foo(1).bar = function(x) end''
     \<lparr>sym_range = ((0, 0), (0, 28)), sym_selectionRange = ((0, 7), (0, 10))\<rparr> = Some 3 \<and>
   strategy1 (split_lines ''foo(1).bar = function(x) end'')
     ''foo(1).bar = function(x) end''
     \<lparr>sym_range = ((0, 0), (0, 28)), sym_selectionRange = ((0, 7), (0, 10))\<rparr> = Some (0, 5)"
  by code_simp

text \<open>
  C6 does not hold of the code on a line that starts with a block comment. The index of
  the \<open>if\<close> is an index into the line without the comment, and the text before it is
  cut from the line with the comment: the \<open>else\<close> before the \<open>if\<close> is not seen, and the
  depth is incremented. With blanks in place of the comment the depth is unchanged.
\<close>

theorem else_if_after_block_comment_opens:
  "scan_tokens ''--[[c]] else if x then'' 0 1 [] '' else if x then''
     [0, 0, 0, 0, 0, 0, 0, 0] 0 = Some (Inr (1, [0, 0, 0, 0, 0, 0, 0, 0])) \<and>
   scan_tokens ''        else if x then'' 0 1 [] ''        else if x then''
     [0, 0, 0, 0, 0, 0, 0, 0] 0 = Some (Inr (0, [0, 0, 0, 0, 0, 0, 0, 0])) \<and>
   getLanguageSpecificSymbolInformation None
     ''function f()\<newline>--[[c]] else if x then\<newline>end''
     \<lparr>sym_range = ((0, 0), (2, 3)), sym_selectionRange = ((0, 9), (0, 10))\<rparr> =
   Some (Inl BodyUnresolvable) \<and>
   getLanguageSpecificSymbolInformation None
     ''function f()\<newline>        else if x then\<newline>end''
     \<lparr>sym_range = ((0, 0), (2, 3)), sym_selectionRange = ((0, 9), (0, 10))\<rparr> =
   Some (Inr \<lparr>res_rangeHead = ((0, 9), (0, 11)), res_rangeBody = ((1, 0), (2, 3)),
              res_attributes = []\<rparr>)"
  by code_simp

section \<open>Claims about the structural route\<close>

text \<open>The trees of \<open>while x do f() end\<close> and of \<open>t = function(x,y)\<close>, line break,
  \<open>return x*y\<close>, line break, \<open>end\<close>, with the offsets of their nodes.\<close>

definition while_chunk :: node where
  "while_chunk =
     Node ''Chunk'' (0, 18)
       [(''type'', FOther),
        (''body'', FList
           [Node ''WhileStatement'' (0, 18)
              [(''type'', FOther),
               (''condition'', FNode (Node ''Identifier'' (6, 7) [(''type'', FOther), (''name'', FOther)])),
               (''body'', FList
                  [Node ''CallStatement'' (11, 14)
                     [(''type'', FOther),
                      (''expression'', FNode
                         (Node ''CallExpression'' (11, 14)
                            [(''type'', FOther),
                             (''base'', FNode (Node ''Identifier'' (11, 12)
                                [(''type'', FOther), (''name'', FOther)])),
                             (''arguments'', FList [])]))]])]])]"

definition assignment_chunk :: node where
  "assignment_chunk =
     Node ''Chunk'' (0, 34)
       [(''type'', FOther),
        (''body'', FList
           [Node ''AssignmentStatement'' (0, 34)
              [(''type'', FOther),
               (''variables'', FList [Node ''Identifier'' (0, 1) [(''type'', FOther), (''name'', FOther)]]),
               (''init'', FList
                  [Node ''FunctionDeclaration'' (4, 34)
                     [(''type'', FOther),
                      (''identifier'', FOther),
                      (''isLocal'', FOther),
                      (''parameters'', FList
                         [Node ''Identifier'' (13, 14) [(''type'', FOther), (''name'', FOther)],
                          Node ''Identifier'' (15, 16) [(''type'', FOther), (''name'', FOther)]]),
                      (''body'', FList
                         [Node ''ReturnStatement'' (20, 30)
                            [(''type'', FOther),
                             (''arguments'', FList
                                [Node ''BinaryExpression'' (27, 30)
                                   [(''type'', FOther),
                                    (''operator'', FOther),
                                    (''left'', FNode (Node ''Identifier'' (27, 28)
                                       [(''type'', FOther), (''name'', FOther)])),
                                    (''right'', FNode (Node ''Identifier'' (29, 30)
                                       [(''type'', FOther), (''name'', FOther)]))]])]])]])]])]"

text \<open>
  C3 does not hold of the code. The traversal accepts six kinds of node; a while loop is
  not one of them, and neither is an assignment, although the dispatch that follows has
  a branch for each. For a while loop that spans the selection no node is found and the
  structural route gives up; for \<open>t = function(x,y) ...\<close> selected at \<open>t\<close> likewise.
\<close>

theorem while_and_assignment_not_candidates:
  "visit 0 while_chunk None = None \<and>
   structural (Some (\<lambda>src. Some while_chunk)) ''while x do f() end''
     \<lparr>sym_range = ((0, 0), (0, 18)), sym_selectionRange = ((0, 0), (0, 5))\<rparr> = None \<and>
   visit 0 assignment_chunk None = None \<and>
   structural (Some (\<lambda>src. Some assignment_chunk)) ''t = function(x,y)\<newline>  return x*y\<newline>end''
     \<lparr>sym_range = ((0, 0), (2, 3)), sym_selectionRange = ((0, 0), (0, 1))\<rparr> = None"
  by code_simp

definition candidate_at :: "nat \<Rightarrow> node option \<Rightarrow> bool" where
  "candidate_at selOffset found =
     (case found of
        None \<Rightarrow> True
      | Some m \<Rightarrow> node_type m \<in> set candidate_types \<and> fst (node_range m) \<le> selOffset \<and>
          selOffset \<le> snd (node_range m))"

lemma visit_kinds:
  "candidate_at selOffset found \<Longrightarrow> candidate_at selOffset (visit selOffset n found)"
  "candidate_at selOffset found \<Longrightarrow> candidate_at selOffset (visit_fields selOffset fs found)"
  "candidate_at selOffset found \<Longrightarrow> candidate_at selOffset (visit_list selOffset ns found)"
proof (induction selOffset n found and selOffset fs found and selOffset ns found
    rule: visit_visit_fields_visit_list.induct)
  case (1 selOffset t r ps foundNode)
  then show ?case by (simp add: candidate_at_def)
qed simp_all

text \<open>
  X1. A node found by the traversal is of one of the six kinds accepted and spans the
  selection offset; it is never a while loop nor an assignment of a function, so the
  branches of the dispatch for these two are never taken.
\<close>

theorem visit_finds_candidate_kinds:
  assumes "visit selOffset ast None = Some foundNode"
  shows "node_type foundNode \<in> set candidate_types \<and>
    fst (node_range foundNode) \<le> selOffset \<and> selOffset \<le> snd (node_range foundNode) \<and>
    node_type foundNode \<noteq> ''WhileStatement'' \<and> function_assignment foundNode = None"
proof -
  from visit_kinds(1) [of selOffset None ast] assms
  have k: "node_type foundNode \<in> set candidate_types"
    and "fst (node_range foundNode) \<le> selOffset" "selOffset \<le> snd (node_range foundNode)"
    by (auto simp: candidate_at_def)
  moreover from k have "node_type foundNode \<noteq> ''WhileStatement''"
    "node_type foundNode \<noteq> ''AssignmentStatement''"
    by (auto simp: candidate_types_def)
  ultimately show ?thesis
    by (simp add: function_assignment_def)
qed

lemma visit_function_chunk:
  "visit 9 function_chunk None =
     Some (Node ''FunctionDeclaration'' (0, 34)
              [(''identifier'', FNode (Node ''Identifier'' (9, 12) [])),
               (''parameters'', FList [Node ''Identifier'' (13, 14) [],
                                       Node ''Identifier'' (15, 16) []]),
               (''body'', FList [Node ''ReturnStatement'' (20, 30) []])])"
  by code_simp

theorem visit_finds_candidate_kinds_witness:
  "node_type (Node ''FunctionDeclaration'' (0, 34)
              [(''identifier'', FNode (Node ''Identifier'' (9, 12) [])),
               (''parameters'', FList [Node ''Identifier'' (13, 14) [],
                                       Node ''Identifier'' (15, 16) []]),
               (''body'', FList [Node ''ReturnStatement'' (20, 30) []])]) \<in> set candidate_types"
  using visit_finds_candidate_kinds [OF visit_function_chunk] by simp

section \<open>Further properties of the heuristic route\<close>

text \<open>
  X2. The call always returns or throws: the model of the token loop, which is a
  function that may not return, always does when it is started as the source starts it.
\<close>

theorem resolution_call_returns:
  "\<exists>res. getLanguageSpecificSymbolInformation luaparse src docSymbol = Some res"
proof (cases "structural luaparse src docSymbol")
  case (Some r)
  then show ?thesis by (simp add: getLanguageSpecificSymbolInformation_def)
next
  case None
  have e: "endPos lines head bs \<noteq> None" for lines head bs
    using scan_lines_returns [of zeros lines _ bs "fst bs" 0 None]
    by (cases "lineAt lines (fst (range_start head))")
       (auto simp: endPos_def zeros_def)
  have "\<exists>res. heuristic src docSymbol = Some res"
    by (auto simp: heuristic_def Let_def e split: sum.splits option.splits)
  with None show ?thesis by (simp add: getLanguageSpecificSymbolInformation_def)
qed

text \<open>
  X3. With one keyword on each line the depth is counted as C1 says, for every nesting
  depth \<open>n\<close>: in the lines \<open>function f()\<close>, \<open>n\<close> times \<open>if a then\<close>, \<open>n\<close> times \<open>end\<close>
  (both indented), \<open>end\<close>, the scan from the start of line 1 returns the last line, the
  function's own \<open>end\<close>.
\<close>

theorem nested_ifs_end_at_own_end:
  "endPos (nested_lines n) ((0, 9), (0, 11)) (1, 0) = Some (Inr (Some (2 * n + 1, 0)))"
proof -
  let ?F = "''function f()''"
  let ?lines = "nested_lines n"
  have ls: "leading_space ?F = []" by code_simp
  have "scan_lines ?lines [] (1, 0) 1 0 None zeros =
      scan_lines ?lines [] (1, 0) (1 + n) (0 + n) None zeros"
    unfolding nested_lines_def
    using scan_if_lines [of "(1, 0)" "[?F]" n "replicate n end_line @ [''end'']" "[]" 0]
    by simp
  also have "\<dots> = scan_lines ?lines [] (1, 0) (1 + n + n) 0 None zeros"
    unfolding nested_lines_def
    using scan_end_lines [of "(1, 0)" "[?F] @ replicate n if_line" n "[''end'']" "[]" 0]
    by simp
  also have "\<dots> = Some (Some (1 + n + n, 0))"
    unfolding nested_lines_def
    using scan_last [of "(1, 0)" "[?F] @ replicate n if_line @ replicate n end_line"]
    by simp
  finally have "scan_lines ?lines [] (1, 0) 1 0 None zeros = Some (Some (2 * n + 1, 0))"
    by simp
  moreover have "lineAt ?lines 0 = Inr ?F"
    by (simp add: lineAt_def nested_lines_def)
  ultimately show ?thesis
    by (simp add: endPos_def range_start_def ls zeros_def)
qed

lemma else_if_line_round:
  "candidates_of (exec_all ''else if x then'' zeros) = [(5, ''if'')] \<and>
   map snd (exec_all ''else if x then'' zeros) = [0, 0, 0, 7, 0, 0, 0, 0] \<and>
   else_before (take (0 + 5) ''else if x then'')"
  by code_simp

text \<open>
  X4. What of C6 the code does on every line: the \<open>if\<close> inside \<open>elseif\<close> is never a match
  of the regular expression for \<open>if\<close>; and in a round whose earliest match is an \<open>if\<close>,
  when the text of the line before the index computed for it ends with the word \<open>else\<close>
  and white space, the loop goes on with the depth unchanged.
\<close>

theorem else_if_and_elseif_open_nothing:
  "(\<not> kw_match_at ''if'' (pre @ ''elseif'' @ post) (length pre + 4)) \<and>
   (candidates_of (exec_all sub lis) = (idx, ''if'') # rest \<and>
    else_before (take (searchFrom + idx) lineText) \<longrightarrow>
    scan_tokens lineText searchFrom ln startIndent sub lis depth =
      scan_tokens lineText searchFrom ln startIndent sub (map snd (exec_all sub lis)) depth)"
proof
  have "(pre @ ''elseif'' @ post) ! (length pre + 4 - 1) = CHR ''e''"
    by (simp add: nth_append)
  then show "\<not> kw_match_at ''if'' (pre @ ''elseif'' @ post) (length pre + 4)"
    by (simp add: kw_match_at_def is_word_char_def)
next
  show "candidates_of (exec_all sub lis) = (idx, ''if'') # rest \<and>
    else_before (take (searchFrom + idx) lineText) \<longrightarrow>
    scan_tokens lineText searchFrom ln startIndent sub lis depth =
      scan_tokens lineText searchFrom ln startIndent sub (map snd (exec_all sub lis)) depth"
    by (subst scan_tokens.simps) simp
qed

theorem else_if_and_elseif_open_nothing_witness:
  "scan_tokens ''else if x then'' 0 1 [] ''else if x then'' zeros 0 =
     scan_tokens ''else if x then'' 0 1 [] ''else if x then'' [0, 0, 0, 7, 0, 0, 0, 0] 0"
  using else_if_and_elseif_open_nothing
    [of "[]" "[]" "''else if x then''" zeros 5 "[]" 0 "''else if x then''" 1 "[]" 0]
    else_if_line_round
  by simp

text \<open>
  X5. For every text the stripper returns (it does not throw) a text of the same length,
  in which the stretches it takes for comments are blanks and every other character is
  unchanged: a stretch starts at every \<open>--\<close> met outside a stretch, also inside a string
  literal, and runs to the end of the line or, after a long bracket of level \<open>n\<close>,
  through the first closing bracket of level \<open>n\<close>, or to the end of the text when there
  is none.
\<close>

theorem stripLuaComments_blanks_stretches:
  "\<exists>out. stripLuaComments src = Inr out \<and> length out = length src \<and> blanked src out"
  using strip_loop_blanked [of 0 src "[]"] by (auto simp: stripLuaComments_def)

lemma strip_level_example:
  "stripLuaComments ''a--[=[b]]c]=]d--e'' = Inr ''a            d   ''"
  by code_simp

theorem stripLuaComments_blanks_stretches_witness:
  "blanked ''a--[=[b]]c]=]d--e'' ''a            d   ''"
  using stripLuaComments_blanks_stretches [of "''a--[=[b]]c]=]d--e''"]
  by (simp add: strip_level_example)

end
